theory Spec2Isabelle
  imports Main "HOL-Library.Word" "HOL-Library.AList"
begin

section \<open>Strings and dynamically typed values\<close>

text \<open>
  The metadata cache of the plugin lives in two TypeScript classes, \<open>MetadataParser\<close>
  (tag extraction) and \<open>MetadataManager\<close> (store, reconciliation, scheduling).
  A JavaScript string is modelled as the \<^typ>\<open>string\<close> of its UTF-8 bytes, so the
  non-ASCII texts of the source (its three default field values and one tag name) are
  written as byte lists. \<open>String.prototype.trim\<close> removes every white space and line
  terminator character of ECMAScript from both ends: TAB, LF, VT, FF, CR, SPACE, U+00A0,
  U+1680, U+2000 to U+200A, U+2028, U+2029, U+202F, U+205F, U+3000 and U+FEFF, each in
  its UTF-8 encoding of one, two or three bytes. \<open>toLowerCase\<close> maps \<open>A\<close>..\<open>Z\<close> to
  \<open>a\<close>..\<open>z\<close> and leaves other bytes alone; the source uses it for one test only, whether
  the result contains the ASCII text \<open>lyric\<close>, and the two characters outside ASCII
  whose lower-case form holds an ASCII letter (U+0130, U+212A) cannot supply a letter of
  it. Calls of \<open>console.*\<close> change no program
  state and are left out.
\<close>

type_synonym bytes = "8 word list"

datatype error = ParseError | ReadError | TypeError | URLError | JSONError

definition isWhiteSpace :: "char \<Rightarrow> bool" where
  "isWhiteSpace c = (c = CHR 0x09 \<or> c = CHR 0x0A \<or> c = CHR 0x0B \<or> c = CHR 0x0C
                     \<or> c = CHR 0x0D \<or> c = CHR 0x20)"

text \<open>U+00A0 in two bytes; U+1680, U+2000 to U+200A, U+2028, U+2029, U+202F, U+205F,
  U+3000 and U+FEFF in three.\<close>

definition isWhiteSpace2 :: "char \<Rightarrow> char \<Rightarrow> bool" where
  "isWhiteSpace2 a b = (a = CHR 0xC2 \<and> b = CHR 0xA0)"

definition isWhiteSpace3 :: "char \<Rightarrow> char \<Rightarrow> char \<Rightarrow> bool" where
  "isWhiteSpace3 a b c =
     ((a = CHR 0xE1 \<and> b = CHR 0x9A \<and> c = CHR 0x80)
      \<or> (a = CHR 0xE2 \<and> b = CHR 0x80
          \<and> ((128 \<le> (of_char c :: nat) \<and> (of_char c :: nat) \<le> 138)
               \<or> c = CHR 0xA8 \<or> c = CHR 0xA9 \<or> c = CHR 0xAF))
      \<or> (a = CHR 0xE2 \<and> b = CHR 0x81 \<and> c = CHR 0x9F)
      \<or> (a = CHR 0xE3 \<and> b = CHR 0x80 \<and> c = CHR 0x80)
      \<or> (a = CHR 0xEF \<and> b = CHR 0xBB \<and> c = CHR 0xBF))"

fun trimStart :: "string \<Rightarrow> string" where
  "trimStart (a # b # c # s) =
     (if isWhiteSpace a then trimStart (b # c # s)
      else if isWhiteSpace2 a b then trimStart (c # s)
      else if isWhiteSpace3 a b c then trimStart s
      else a # b # c # s)"
| "trimStart [a, b] =
     (if isWhiteSpace a then trimStart [b]
      else if isWhiteSpace2 a b then []
      else [a, b])"
| "trimStart [a] = (if isWhiteSpace a then [] else [a])"
| "trimStart [] = []"

text \<open>The same from the end, on the reversed string: the last byte comes first.\<close>

fun trimEndReversed :: "string \<Rightarrow> string" where
  "trimEndReversed (c # b # a # s) =
     (if isWhiteSpace c then trimEndReversed (b # a # s)
      else if isWhiteSpace2 b c then trimEndReversed (a # s)
      else if isWhiteSpace3 a b c then trimEndReversed s
      else c # b # a # s)"
| "trimEndReversed [c, b] =
     (if isWhiteSpace c then trimEndReversed [b]
      else if isWhiteSpace2 b c then []
      else [c, b])"
| "trimEndReversed [c] = (if isWhiteSpace c then [] else [c])"
| "trimEndReversed [] = []"

definition trim :: "string \<Rightarrow> string" where
  "trim s = rev (trimEndReversed (rev (trimStart s)))"

definition toLowerChar :: "char \<Rightarrow> char" where
  "toLowerChar c = (let n = (of_char c :: nat)
                    in if 65 \<le> n \<and> n \<le> 90 then char_of (n + 32) else c)"

definition toLowerCase :: "string \<Rightarrow> string" where
  "toLowerCase s = map toLowerChar s"

fun startsWith :: "string \<Rightarrow> string \<Rightarrow> bool" where
  "startsWith s [] = True"
| "startsWith [] (p # ps) = False"
| "startsWith (c # cs) (p # ps) = (c = p \<and> startsWith cs ps)"

fun str_includes :: "string \<Rightarrow> string \<Rightarrow> bool" where
  "str_includes [] sub = (sub = [])"
| "str_includes (c # cs) sub = (startsWith (c # cs) sub \<or> str_includes cs sub)"

fun join :: "string \<Rightarrow> string list \<Rightarrow> string" where
  "join sep [] = []"
| "join sep [x] = x"
| "join sep (x # y # ys) = x @ sep @ join sep (y # ys)"

text \<open>
  Tag values have type \<open>any\<close> in the source. \<open>JPrim b s\<close> stands for a number or a
  boolean: the code only observes whether it is truthy (\<open>b\<close>) and, inside
  \<open>Array.prototype.join\<close>, its string conversion (\<open>s\<close>).
\<close>

datatype jsval =
    JUndefined
  | JNull
  | JPrim bool string
  | JStr string
  | JArr "jsval list"
  | JObj "(string \<times> jsval) list"

fun truthy :: "jsval \<Rightarrow> bool" where
  "truthy JUndefined = False"
| "truthy JNull = False"
| "truthy (JPrim b s) = b"
| "truthy (JStr s) = (s \<noteq> [])"
| "truthy (JArr xs) = True"
| "truthy (JObj fs) = True"

text \<open>\<open>k in v\<close> and \<open>v.k\<close>, for the property names the code asks for (none of which
  an array, a string or a number carries).\<close>

fun hasProp :: "string \<Rightarrow> jsval \<Rightarrow> bool" where
  "hasProp k (JObj fs) = (map_of fs k \<noteq> None)"
| "hasProp k v = False"

fun getProp :: "jsval \<Rightarrow> string \<Rightarrow> jsval" where
  "getProp (JObj fs) k = (case map_of fs k of Some v \<Rightarrow> v | None \<Rightarrow> JUndefined)"
| "getProp v k = JUndefined"

fun isNullish :: "jsval \<Rightarrow> bool" where
  "isNullish JUndefined = True"
| "isNullish JNull = True"
| "isNullish v = False"

text \<open>The string an element contributes to \<open>Array.prototype.join\<close>.\<close>

fun joinString :: "jsval \<Rightarrow> string" where
  "joinString JUndefined = []"
| "joinString JNull = []"
| "joinString (JPrim b s) = s"
| "joinString (JStr s) = s"
| "joinString (JArr xs) = join '','' (map joinString xs)"
| "joinString (JObj fs) = ''[object Object]''"

text \<open>A string result that an \<open>if (text)\<close> of the source lets through.\<close>

fun truthyText :: "string option \<Rightarrow> string option" where
  "truthyText (Some s) = (if s = [] then None else Some s)"
| "truthyText None = None"

fun firstText :: "string option list \<Rightarrow> string option" where
  "firstText [] = None"
| "firstText (r # rs) = (case truthyText r of Some s \<Rightarrow> Some s | None \<Rightarrow> firstText rs)"

section \<open>MetadataParser\<close>

subsection \<open>extractLyricsText\<close>

text \<open>One line of a synchronised-lyrics object, as the \<open>map\<close> callback of the source
  sees it.\<close>

fun lineText :: "jsval \<Rightarrow> jsval" where
  "lineText (JStr s) = JStr s"
| "lineText (JObj fs) = (if hasProp ''text'' (JObj fs) then getProp (JObj fs) ''text'' else JNull)"
| "lineText v = JNull"

function extractLyricsText :: "jsval \<Rightarrow> string option" where
  "extractLyricsText JUndefined = None"
| "extractLyricsText JNull = None"
| "extractLyricsText (JPrim b s) = None"
| "extractLyricsText (JStr s) = (let trimmed = trim s in if trimmed = [] then None else Some trimmed)"
| "extractLyricsText (JArr xs) = firstText (map extractLyricsText xs)"
| "extractLyricsText (JObj fs) =
     (case (if hasProp ''text'' (JObj fs) \<and> truthy (getProp (JObj fs) ''text'')
            then truthyText (extractLyricsText (getProp (JObj fs) ''text'')) else None) of
        Some t \<Rightarrow> Some t
      | None \<Rightarrow>
          if hasProp ''descriptor'' (JObj fs) \<and> truthy (getProp (JObj fs) ''descriptor'')
          then extractLyricsText (getProp (JObj fs) ''descriptor'')
          else (case getProp (JObj fs) ''lyrics'' of
                  JArr ls \<Rightarrow>
                    (let lines = filter (\<lambda>l. l \<noteq> JNull) (map lineText ls)
                     in if lines = [] then None else Some (join [CHR 0x0A] (map joinString lines)))
                | _ \<Rightarrow> None))"
  by pat_completeness auto
termination
proof (relation "measure size")
  show "wf (measure size)" by simp
next
  fix xs :: "jsval list" and x assume "x \<in> set xs"
  then show "(x, JArr xs) \<in> measure size"
    by (induction xs) auto
next
  have field_smaller: "size v < Suc (size_list (size_prod (\<lambda>_. 0) size) fs)"
    if "map_of fs k = Some v" for fs :: "(string \<times> jsval) list" and k v
    using that by (induction fs) (auto split: if_splits)
  {
    fix fs :: "(string \<times> jsval) list"
    assume "hasProp ''text'' (JObj fs) \<and> truthy (getProp (JObj fs) ''text'')"
    then show "(getProp (JObj fs) ''text'', JObj fs) \<in> measure size"
      by (auto dest: field_smaller)
  next
    fix fs :: "(string \<times> jsval) list"
    assume "hasProp ''descriptor'' (JObj fs) \<and> truthy (getProp (JObj fs) ''descriptor'')"
    then show "(getProp (JObj fs) ''descriptor'', JObj fs) \<in> measure size"
      by (auto dest: field_smaller)
  }
qed

subsection \<open>Decoded tags\<close>

text \<open>
  What \<open>music-metadata\<close> hands back for a buffer: the normalised \<open>common\<close> fields and
  the format-specific \<open>native\<close> tag lists, keyed by tag-container name. The decoder
  itself is an external library and enters the model as the parameter \<open>parseBuffer\<close>.
\<close>

record IPicture =
  format :: string
  data :: bytes

record ITag =
  tag_id :: string
  tag_value :: jsval

record ICommonTagsResult =
  common_title :: "string option"
  common_artist :: "string option"
  common_album :: "string option"
  common_picture :: "IPicture list option"
  common_lyrics :: jsval

record IAudioMetadata =
  common :: ICommonTagsResult
  native :: "string \<Rightarrow> ITag list option"

record TrackMetadata =
  title :: string
  artist :: string
  album :: string
  cover :: "string option"
  lyrics :: "string option"

definition unknownTitle :: string where
  "unknownTitle = [CHR 0xE6, CHR 0x9C, CHR 0xAA, CHR 0xE7, CHR 0x9F, CHR 0xA5,
                   CHR 0xE6, CHR 0xA0, CHR 0x87, CHR 0xE9, CHR 0xA2, CHR 0x98]"

definition unknownArtist :: string where
  "unknownArtist = [CHR 0xE6, CHR 0x9C, CHR 0xAA, CHR 0xE7, CHR 0x9F, CHR 0xA5,
                    CHR 0xE8, CHR 0x89, CHR 0xBA, CHR 0xE6, CHR 0x9C, CHR 0xAF,
                    CHR 0xE5, CHR 0xAE, CHR 0xB6]"

definition unknownAlbum :: string where
  "unknownAlbum = [CHR 0xE6, CHR 0x9C, CHR 0xAA, CHR 0xE7, CHR 0x9F, CHR 0xA5,
                   CHR 0xE4, CHR 0xB8, CHR 0x93, CHR 0xE8, CHR 0xBE, CHR 0x91]"

text \<open>
  Modelled from the spec: the constant \<open>DEFAULT_METADATA\<close> of \<open>utils/constants\<close>, which
  the parser imports and which is not among the source files. The spec gives its fields
  as title "Unknown Title", artist "Unknown Artist", album "Unknown Album", no cover and
  no lyrics.
\<close>

definition DEFAULT_METADATA :: TrackMetadata where
  "DEFAULT_METADATA = \<lparr>title = ''Unknown Title'', artist = ''Unknown Artist'',
                        album = ''Unknown Album'', cover = None, lyrics = None\<rparr>"

text \<open>\<open>a || b\<close> on an optional string: the left side when it is a non-empty string.\<close>

fun orDefault :: "string option \<Rightarrow> string \<Rightarrow> string" where
  "orDefault (Some s) d = (if s = [] then d else s)"
| "orDefault None d = d"

subsection \<open>extractLyrics\<close>

text \<open>Step 1, the loop over \<open>metadata.common.lyrics\<close>: the value returned from inside the
  loop, if any.\<close>

fun commonLyricsEntry :: "jsval \<Rightarrow> string option" where
  "commonLyricsEntry (JStr s) = (if s \<noteq> [] \<and> trim s \<noteq> [] then Some (trim s) else None)"
| "commonLyricsEntry (JObj fs) =
     (if hasProp ''text'' (JObj fs)
      then (case getProp (JObj fs) ''text'' of
              JStr t \<Rightarrow> (if t \<noteq> [] \<and> trim t \<noteq> [] then Some (trim t) else None)
            | _ \<Rightarrow> None)
      else None)"
| "commonLyricsEntry v = None"

fun commonLyricsLoop :: "jsval list \<Rightarrow> string option" where
  "commonLyricsLoop [] = None"
| "commonLyricsLoop (l # ls) =
     (case commonLyricsEntry l of Some t \<Rightarrow> Some t | None \<Rightarrow> commonLyricsLoop ls)"

definition commonLyrics :: "IAudioMetadata \<Rightarrow> string option" where
  "commonLyrics md = (case common_lyrics (common md) of JArr ls \<Rightarrow> commonLyricsLoop ls | _ \<Rightarrow> None)"

text \<open>The recurring pattern \<open>if (tag?.value) { const t = extractLyricsText(tag.value);
  if (t) return t; }\<close>.\<close>

definition tagLyrics :: "ITag option \<Rightarrow> string option" where
  "tagLyrics found =
     (case found of
        None \<Rightarrow> None
      | Some tag \<Rightarrow> if truthy (tag_value tag) then truthyText (extractLyricsText (tag_value tag))
                  else None)"

text \<open>The predicate of the TXXX search. Calling \<open>toLowerCase\<close> on a description that is
  present but is not a string raises a TypeError.\<close>

definition isLyricsTXXX :: "ITag \<Rightarrow> error + bool" where
  "isLyricsTXXX tag =
     (if tag_id tag \<noteq> ''TXXX'' then Inr False
      else if isNullish (tag_value tag) then Inr False
      else (case getProp (tag_value tag) ''description'' of
              JUndefined \<Rightarrow> Inr False
            | JNull \<Rightarrow> Inr False
            | JStr d \<Rightarrow> Inr (str_includes (toLowerCase d) ''lyric'')
            | _ \<Rightarrow> Inl TypeError))"

fun findTXXX :: "ITag list \<Rightarrow> error + ITag option" where
  "findTXXX [] = Inr None"
| "findTXXX (tag # tags) =
     (case isLyricsTXXX tag of
        Inl e \<Rightarrow> Inl e
      | Inr True \<Rightarrow> Inr (Some tag)
      | Inr False \<Rightarrow> findTXXX tags)"

definition txxxLyrics :: "ITag option \<Rightarrow> string option" where
  "txxxLyrics found =
     (case found of
        None \<Rightarrow> None
      | Some tag \<Rightarrow>
          if truthy (tag_value tag) \<and> truthy (getProp (tag_value tag) ''text'')
          then truthyText (extractLyricsText (getProp (tag_value tag) ''text''))
          else None)"

definition copyrightLyr :: string where
  "copyrightLyr = [CHR 0xC2, CHR 0xA9] @ ''lyr''"

text \<open>The body of the \<open>try\<close> block of \<open>extractLyrics\<close>: every \<open>return\<close> in source order,
  \<open>Inl\<close> when the TXXX search throws.\<close>

definition extractLyricsBody :: "IAudioMetadata \<Rightarrow> error + string option" where
  "extractLyricsBody md =
     (case commonLyrics md of
        Some t \<Rightarrow> Inr (Some t)
      | None \<Rightarrow>
     (case (case native md ''id3v2'' of
              None \<Rightarrow> Inr None
            | Some id3 \<Rightarrow>
                (case tagLyrics (find (\<lambda>tag. tag_id tag = ''USLT'') id3) of
                   Some t \<Rightarrow> Inr (Some t)
                 | None \<Rightarrow>
                (case tagLyrics (find (\<lambda>tag. tag_id tag = ''SYLT'') id3) of
                   Some t \<Rightarrow> Inr (Some t)
                 | None \<Rightarrow>
                (case findTXXX id3 of
                   Inl e \<Rightarrow> Inl e
                 | Inr found \<Rightarrow> Inr (txxxLyrics found))))) of
        Inl e \<Rightarrow> Inl e
      | Inr (Some t) \<Rightarrow> Inr (Some t)
      | Inr None \<Rightarrow>
     (case (case native md ''vorbis'' of
              None \<Rightarrow> None
            | Some vorbis \<Rightarrow>
                tagLyrics (find (\<lambda>tag. tag_id tag = ''LYRICS'' \<or> tag_id tag = ''UNSYNCEDLYRICS''
                                    \<or> tag_id tag = ''lyrics'' \<or> tag_id tag = ''UNSYNCED LYRICS'')
                             vorbis)) of
        Some t \<Rightarrow> Inr (Some t)
      | None \<Rightarrow>
     (case (case native md ''apev2'' of
              None \<Rightarrow> None
            | Some ape \<Rightarrow>
                tagLyrics (find (\<lambda>tag. tag_id tag = ''Lyrics'' \<or> tag_id tag = ''LYRICS''
                                    \<or> tag_id tag = ''UNSYNCED LYRICS'') ape)) of
        Some t \<Rightarrow> Inr (Some t)
      | None \<Rightarrow>
     (case (case (case native md ''iTunes'' of Some ts \<Rightarrow> Some ts | None \<Rightarrow> native md ''mp4'') of
              None \<Rightarrow> None
            | Some itunesNative \<Rightarrow>
                tagLyrics (find (\<lambda>tag. tag_id tag = copyrightLyr
                                    \<or> tag_id tag = ''----:com.apple.iTunes:LYRICS'')
                             itunesNative)) of
        Some t \<Rightarrow> Inr (Some t)
      | None \<Rightarrow>
     (case (case native md ''asf'' of
              None \<Rightarrow> None
            | Some asf \<Rightarrow>
                tagLyrics (find (\<lambda>tag. tag_id tag = ''WM/Lyrics''
                                    \<or> tag_id tag = ''WM/Lyrics_Synchronised'') asf)) of
        Some t \<Rightarrow> Inr (Some t)
      | None \<Rightarrow> Inr None))))))"

definition extractLyrics :: "IAudioMetadata \<Rightarrow> string option" where
  "extractLyrics md = (case extractLyricsBody md of Inl e \<Rightarrow> None | Inr r \<Rightarrow> r)"

subsection \<open>The environment\<close>

text \<open>
  Everything the two classes call and do not define: the vault of the host application,
  the helpers of \<open>utils/helpers\<close> (not among the source files, so taken as parameters),
  the tag decoder, \<open>JSON.parse\<close> and \<open>URL.createObjectURL\<close>. A call that can throw
  or reject returns a sum. \<open>extractionTime\<close> is how long the awaited reads and the
  decoding of a file take, in milliseconds. The vault does not change while the model
  runs.
\<close>

record TFile =
  path :: string
  name :: string
  basename :: string

datatype TAbstractFile = File TFile | Folder

text \<open>An entry of the parsed \<open>data.json\<close>, which the source reads at type \<open>any\<close>: a
  field is \<open>None\<close> when it is missing or \<open>null\<close>.\<close>

record StoredMetadata =
  stored_title :: "string option"
  stored_artist :: "string option"
  stored_album :: "string option"
  stored_cover :: "string option"
  stored_lyrics :: "string option"

text \<open>What \<open>JSON.parse\<close> returned for \<open>data.json\<close>. Reading a property of \<open>null\<close>
  throws; any other value has the entries of its \<open>metadata\<close> object, if it has one.\<close>

datatype ExistingData =
    NullData
  | DataObject "(string \<times> StoredMetadata) list option"

record env =
  isSupportedAudioFile :: "string \<Rightarrow> bool"
  normalizePath :: "string \<Rightarrow> string"
  vault_getFiles :: "TFile list"
  vault_getAbstractFileByPath :: "string \<Rightarrow> TAbstractFile option"
  vault_readBinary :: "TFile \<Rightarrow> error + bytes"
  vault_read :: "TFile \<Rightarrow> error + string"
  vault_configDir :: string
  jsonParse :: "string \<Rightarrow> error + ExistingData"
  parseBuffer :: "bytes \<Rightarrow> error + IAudioMetadata"
  createObjectURL :: "IPicture \<Rightarrow> error + string"
  extractionTime :: "string \<Rightarrow> nat"

subsection \<open>extractCover and extractMetadata\<close>

record MetadataParser =
  blobUrls :: "(string \<times> IPicture) list"

definition extractCover :: "env \<Rightarrow> IPicture list option \<Rightarrow> MetadataParser
    \<Rightarrow> string option \<times> MetadataParser" where
  "extractCover e pictures p =
     (case pictures of
        None \<Rightarrow> (None, p)
      | Some [] \<Rightarrow> (None, p)
      | Some (picture # rest) \<Rightarrow>
          (case createObjectURL e picture of
             Inl err \<Rightarrow> (None, p)
           | Inr blobUrl \<Rightarrow>
               (Some blobUrl, p\<lparr>blobUrls := AList.update blobUrl picture (blobUrls p)\<rparr>)))"

text \<open>\<open>lyricsFromLrcFile || this.extractLyrics(metadata)\<close>: the sidecar text when it is a
  non-empty string.\<close>

definition resolveLyrics :: "string option \<Rightarrow> IAudioMetadata \<Rightarrow> string option" where
  "resolveLyrics lyricsFromLrcFile md =
     (case lyricsFromLrcFile of
        Some t \<Rightarrow> if t \<noteq> [] then Some t else extractLyrics md
      | None \<Rightarrow> extractLyrics md)"

definition extractMetadata :: "env \<Rightarrow> MetadataParser \<Rightarrow> bytes \<Rightarrow> string option
    \<Rightarrow> error + (TrackMetadata \<times> MetadataParser)" where
  "extractMetadata e p arrayBuffer lyricsFromLrcFile =
     (case parseBuffer e arrayBuffer of
        Inl err \<Rightarrow> Inr (DEFAULT_METADATA, p)
      | Inr md \<Rightarrow>
          (let lyr = resolveLyrics lyricsFromLrcFile md;
               (cov, p') = extractCover e (common_picture (common md)) p
           in Inr (\<lparr>title = orDefault (common_title (common md)) unknownTitle,
                    artist = orDefault (common_artist (common md)) unknownArtist,
                    album = orDefault (common_album (common md)) unknownAlbum,
                    cover = cov,
                    lyrics = lyr\<rparr>, p')))"

definition parser_cleanup :: "MetadataParser \<Rightarrow> MetadataParser" where
  "parser_cleanup p = p\<lparr>blobUrls := []\<rparr>"

section \<open>MetadataManager\<close>

subsection \<open>State\<close>

text \<open>
  The fields of the manager object, followed by the part of the JavaScript runtime its
  methods act on: the pending timers and awaited continuations, the clock (milliseconds)
  and the times at which the registered save callback has been invoked. The cache is a
  JavaScript \<open>Map\<close>: an insertion-ordered association list, \<open>AList.update\<close> being
  \<open>Map.set\<close> and \<open>AList.delete\<close> being \<open>Map.delete\<close>. \<open>onSaveNeeded\<close> tells whether a
  callback has been registered; the callback itself belongs to the plugin's main class.
\<close>

datatype callback =
    SaveCallback
  | SettleCallback string
  | ExtractionDone string TFile

record task =
  task_id :: nat
  due :: nat
  run :: callback

record state =
  cache :: "(string \<times> TrackMetadata) list"
  isDirty :: bool
  saveTimeout :: "nat option"
  onSaveNeeded :: bool
  isInitialized :: bool
  totalTracks :: nat
  processedTracks :: nat
  parser :: MetadataParser
  pending :: "task list"
  nextId :: nat
  clock :: nat
  saveRequests :: "nat list"

record PluginSettings =
  metadata :: "(string \<times> TrackMetadata) list option"

datatype change_type = Create | Delete | Modify

subsection \<open>Timers\<close>

definition setTimeout :: "callback \<Rightarrow> nat \<Rightarrow> state \<Rightarrow> nat \<times> state" where
  "setTimeout cb delay s =
     (nextId s,
      s\<lparr>pending := pending s @ [\<lparr>task_id = nextId s, due = clock s + delay, run = cb\<rparr>],
        nextId := Suc (nextId s)\<rparr>)"

definition clearTimeout :: "nat \<Rightarrow> state \<Rightarrow> state" where
  "clearTimeout h s = s\<lparr>pending := filter (\<lambda>t. task_id t \<noteq> h) (pending s)\<rparr>"

definition scheduleSave :: "state \<Rightarrow> state" where
  "scheduleSave s =
     (let s1 = (case saveTimeout s of Some h \<Rightarrow> clearTimeout h s | None \<Rightarrow> s);
          (h', s2) = setTimeout SaveCallback 500 s1
      in s2\<lparr>saveTimeout := Some h'\<rparr>)"

text \<open>The body of the timer callback installed by \<open>scheduleSave\<close>.\<close>

definition saveCallback :: "state \<Rightarrow> state" where
  "saveCallback s =
     (let s1 = s\<lparr>isDirty := False\<rparr>
      in if onSaveNeeded s1 then s1\<lparr>saveRequests := saveRequests s1 @ [clock s1]\<rparr> else s1)"

subsection \<open>Settings\<close>

definition setSaveCallback :: "state \<Rightarrow> state" where
  "setSaveCallback s = s\<lparr>onSaveNeeded := True\<rparr>"

definition restoreEntry :: "TrackMetadata \<Rightarrow> TrackMetadata" where
  "restoreEntry m =
     (let validCover = (case cover m of
                          Some c \<Rightarrow> if c \<noteq> [] \<and> startsWith c ''blob:'' then None else Some c
                        | None \<Rightarrow> None)
      in \<lparr>title = title m, artist = artist m, album = album m, cover = validCover,
          lyrics = (case lyrics m of Some l \<Rightarrow> if l \<noteq> [] then Some l else None | None \<Rightarrow> None)\<rparr>)"

definition initializeFromSettings :: "PluginSettings \<Rightarrow> state \<Rightarrow> state" where
  "initializeFromSettings settings s =
     (let s1 = s\<lparr>cache := [], isInitialized := False, processedTracks := 0\<rparr>;
          s2 = (case metadata settings of
                  Some entries \<Rightarrow>
                    fold (\<lambda>(p, m) st. st\<lparr>cache := AList.update p (restoreEntry m) (cache st),
                                          processedTracks := Suc (processedTracks st)\<rparr>)
                      entries (s1\<lparr>totalTracks := length entries\<rparr>)
                | None \<Rightarrow> s1\<lparr>totalTracks := 0\<rparr>)
      in s2\<lparr>isInitialized := True\<rparr>)"

definition exportToSettings :: "state \<Rightarrow> PluginSettings" where
  "exportToSettings s = \<lparr>metadata = Some (cache s)\<rparr>"

definition getMetadata :: "state \<Rightarrow> string \<Rightarrow> TrackMetadata option" where
  "getMetadata s filePath = map_of (cache s) filePath"

definition getAllMetadata :: "state \<Rightarrow> (string \<times> TrackMetadata) list" where
  "getAllMetadata s = cache s"

definition getCacheSize :: "state \<Rightarrow> nat" where
  "getCacheSize s = length (cache s)"

definition needsSave :: "state \<Rightarrow> bool" where
  "needsSave s = isDirty s"

subsection \<open>Extraction of one file\<close>

text \<open>\<open>path.replace(/\\.[^.]+$/, '.lrc')\<close>: the last dot and what follows it are replaced
  when at least one character follows that dot; otherwise the path is returned as it is.\<close>

definition lrcPathOf :: "string \<Rightarrow> string" where
  "lrcPathOf fp =
     (let ext = takeWhile (\<lambda>c. c \<noteq> CHR ''.'') (rev fp)
      in if ext \<noteq> [] \<and> length ext < length fp
         then rev (drop (Suc (length ext)) (rev fp)) @ ''.lrc''
         else fp)"

definition readLrcFile :: "env \<Rightarrow> TFile \<Rightarrow> string option" where
  "readLrcFile e file =
     (case vault_getAbstractFileByPath e (lrcPathOf (path file)) of
        Some (File lrcFile) \<Rightarrow>
          (case vault_read e lrcFile of
             Inl err \<Rightarrow> None
           | Inr text \<Rightarrow> if text \<noteq> [] \<and> trim text \<noteq> [] then Some text else None)
      | _ \<Rightarrow> None)"

definition extractFileMetadata :: "env \<Rightarrow> TFile \<Rightarrow> MetadataParser
    \<Rightarrow> error + (TrackMetadata \<times> MetadataParser)" where
  "extractFileMetadata e file p =
     (case vault_readBinary e file of
        Inl err \<Rightarrow> Inl err
      | Inr arrayBuffer \<Rightarrow> extractMetadata e p arrayBuffer (readLrcFile e file))"

subsection \<open>Full refresh\<close>

definition dataPath :: "env \<Rightarrow> string" where
  "dataPath e = vault_configDir e @ ''/plugins/albus-status-bar-music/data.json''"

definition loadExistingData :: "env \<Rightarrow> ExistingData" where
  "loadExistingData e =
     (case vault_getAbstractFileByPath e (dataPath e) of
        Some (File dataFile) \<Rightarrow>
          (case vault_read e dataFile of
             Inl err \<Rightarrow> DataObject (Some [])
           | Inr content \<Rightarrow>
               (case jsonParse e content of
                  Inl err \<Rightarrow> DataObject (Some [])
                | Inr parsed \<Rightarrow> parsed))
      | _ \<Rightarrow> DataObject (Some []))"

fun nonEmpty :: "string option \<Rightarrow> bool" where
  "nonEmpty (Some s) = (s \<noteq> [])"
| "nonEmpty None = False"

text \<open>\<open>existingData.metadata\<close>, and the value of
  \<open>existingData.metadata && existingData.metadata[path]\<close> where the former does not
  throw.\<close>

fun metadataOf :: "ExistingData \<Rightarrow> error + (string \<times> StoredMetadata) list option" where
  "metadataOf NullData = Inl TypeError"
| "metadataOf (DataObject m) = Inr m"

fun existingEntry :: "ExistingData \<Rightarrow> string \<Rightarrow> StoredMetadata option" where
  "existingEntry NullData fp = None"
| "existingEntry (DataObject None) fp = None"
| "existingEntry (DataObject (Some m)) fp = map_of m fp"

text \<open>\<open>existingMetadata.title && existingMetadata.artist\<close>: both fields when both are
  non-empty strings.\<close>

definition completeFields :: "StoredMetadata \<Rightarrow> (string \<times> string) option" where
  "completeFields ex =
     (case stored_title ex of
        None \<Rightarrow> None
      | Some t \<Rightarrow>
          if t = [] then None
          else (case stored_artist ex of
                  None \<Rightarrow> None
                | Some a \<Rightarrow> if a = [] then None else Some (t, a)))"

definition reusedMetadata :: "string \<Rightarrow> string \<Rightarrow> StoredMetadata \<Rightarrow> TrackMetadata" where
  "reusedMetadata t a ex =
     \<lparr>title = t,
      artist = a,
      album = orDefault (stored_album ex) unknownAlbum,
      cover = (if nonEmpty (stored_cover ex) then stored_cover ex else None),
      lyrics = (if nonEmpty (stored_lyrics ex) then stored_lyrics ex else None)\<rparr>"

definition fileDefaultMetadata :: "TFile \<Rightarrow> TrackMetadata" where
  "fileDefaultMetadata file =
     \<lparr>title = basename file, artist = unknownArtist, album = unknownAlbum,
      cover = None, lyrics = None\<rparr>"

text \<open>The statements after the reuse test inside the \<open>try\<close> block.\<close>

definition extractAndStore :: "env \<Rightarrow> TFile \<Rightarrow> state \<Rightarrow> error + state" where
  "extractAndStore e file s =
     (case extractFileMetadata e file (parser s) of
        Inl err \<Rightarrow> Inl err
      | Inr (md, p') \<Rightarrow> Inr (s\<lparr>cache := AList.update (path file) md (cache s), parser := p'\<rparr>))"

definition processFileTry :: "env \<Rightarrow> TFile \<Rightarrow> ExistingData \<Rightarrow> state \<Rightarrow> error + state" where
  "processFileTry e file existingData s =
     (case metadataOf existingData of
        Inl err \<Rightarrow> Inl err
      | Inr m \<Rightarrow>
          (case existingEntry existingData (path file) of
             Some existingMetadata \<Rightarrow>
               (case completeFields existingMetadata of
                  Some (t, a) \<Rightarrow>
                    Inr (s\<lparr>cache := AList.update (path file) (reusedMetadata t a existingMetadata)
                                       (cache s)\<rparr>)
                | None \<Rightarrow> extractAndStore e file s)
           | None \<Rightarrow> extractAndStore e file s))"

definition processFileIfNeeded :: "env \<Rightarrow> TFile \<Rightarrow> ExistingData \<Rightarrow> state \<Rightarrow> error + state" where
  "processFileIfNeeded e file existingData s =
     (case processFileTry e file existingData s of
        Inr s' \<Rightarrow> Inr s'
      | Inl err \<Rightarrow>
          Inr (s\<lparr>cache := AList.update (path file) (fileDefaultMetadata file) (cache s)\<rparr>))"

definition musicFilesIn :: "env \<Rightarrow> string list \<Rightarrow> TFile list" where
  "musicFilesIn e validFolders =
     concat (map (\<lambda>folderPath.
                    filter (\<lambda>file. startsWith (path file) (normalizePath e folderPath)
                                    \<and> isSupportedAudioFile e (name file))
                      (vault_getFiles e))
                 validFolders)"

text \<open>\<open>Promise.allSettled\<close> over the per-file tasks. The tasks are run one after the other
  in the order of the list; a rejected task would leave the state as it was.\<close>

definition settleAll :: "env \<Rightarrow> ExistingData \<Rightarrow> TFile list \<Rightarrow> state \<Rightarrow> state" where
  "settleAll e existingData files s =
     fold (\<lambda>file st. case processFileIfNeeded e file existingData st of
                        Inr st' \<Rightarrow> st' | Inl err \<Rightarrow> st)
          files s"

text \<open>The loop that counts the skipped files once the batch has settled. It reads
  \<open>existingData.metadata\<close> outside any \<open>try\<close>.\<close>

fun countSkipped :: "ExistingData \<Rightarrow> TFile list \<Rightarrow> nat \<Rightarrow> error + nat" where
  "countSkipped existingData [] skippedCount = Inr skippedCount"
| "countSkipped existingData (file # files) skippedCount =
     (case metadataOf existingData of
        Inl err \<Rightarrow> Inl err
      | Inr m \<Rightarrow>
          countSkipped existingData files
            (if existingEntry existingData (path file) \<noteq> None then Suc skippedCount
             else skippedCount))"

text \<open>The promise of \<open>refreshAllMetadata\<close> resolves (\<open>Inr ()\<close>) or rejects; either way the
  state is what the method has made of it by then.\<close>

definition refreshAllMetadata :: "env \<Rightarrow> string list \<Rightarrow> state \<Rightarrow> (error + unit) \<times> state" where
  "refreshAllMetadata e musicFolderPaths s =
     (let validFolders = filter (\<lambda>p. p \<noteq> [] \<and> trim p \<noteq> []) musicFolderPaths
      in if validFolders = [] then (Inr (), s)
         else
           (let existingData = loadExistingData e;
                s1 = s\<lparr>isDirty := True\<rparr>;
                musicFiles = musicFilesIn e validFolders;
                s2 = settleAll e existingData musicFiles s1
            in case countSkipped existingData musicFiles 0 of
                 Inl err \<Rightarrow> (Inl err, s2)
               | Inr skippedCount \<Rightarrow> (Inr (), scheduleSave s2)))"

subsection \<open>Change events and the event loop\<close>

definition lastSegment :: "string \<Rightarrow> string" where
  "lastSegment fp = rev (takeWhile (\<lambda>c. c \<noteq> CHR ''/'') (rev fp))"

definition handleFileChange :: "env \<Rightarrow> string \<Rightarrow> change_type \<Rightarrow> state \<Rightarrow> state" where
  "handleFileChange e filePath type s =
     (let isMusicFile = isSupportedAudioFile e (lastSegment filePath)
      in if \<not> isMusicFile then s
         else
           (let s1 = s\<lparr>isDirty := True\<rparr>
            in case type of
                 Delete \<Rightarrow> scheduleSave (s1\<lparr>cache := AList.delete filePath (cache s1)\<rparr>)
               | Create \<Rightarrow> snd (setTimeout (SettleCallback filePath) 500 s1)
               | Modify \<Rightarrow> snd (setTimeout (SettleCallback filePath) 500 s1)))"

text \<open>The callback of the 500 ms timer of a create or modify event, up to its
  \<open>await\<close>: the rest of it runs when the extraction has finished.\<close>

definition settleCallback :: "env \<Rightarrow> string \<Rightarrow> state \<Rightarrow> state" where
  "settleCallback e filePath s =
     (case vault_getAbstractFileByPath e filePath of
        Some (File file) \<Rightarrow>
          snd (setTimeout (ExtractionDone filePath file) (extractionTime e filePath) s)
      | _ \<Rightarrow> s)"

definition extractionDone :: "env \<Rightarrow> string \<Rightarrow> TFile \<Rightarrow> state \<Rightarrow> state" where
  "extractionDone e filePath file s =
     (case extractFileMetadata e file (parser s) of
        Inl err \<Rightarrow> s
      | Inr (md, p') \<Rightarrow>
          scheduleSave (s\<lparr>cache := AList.update filePath md (cache s), parser := p'\<rparr>))"

definition cleanup :: "state \<Rightarrow> state" where
  "cleanup s =
     (let s1 = (case saveTimeout s of Some h \<Rightarrow> clearTimeout h s | None \<Rightarrow> s)
      in s1\<lparr>parser := parser_cleanup (parser s1), cache := []\<rparr>)"

text \<open>
  The event loop. The pending task that is due first runs first, tasks due at the same
  time in the order in which they were queued; a task runs at its due time.
\<close>

fun earliest :: "task list \<Rightarrow> task option" where
  "earliest [] = None"
| "earliest (t # ts) =
     (case earliest ts of
        None \<Rightarrow> Some t
      | Some u \<Rightarrow> if due u < due t then Some u else Some t)"

definition runCallback :: "env \<Rightarrow> callback \<Rightarrow> state \<Rightarrow> state" where
  "runCallback e cb s =
     (case cb of
        SaveCallback \<Rightarrow> saveCallback s
      | SettleCallback filePath \<Rightarrow> settleCallback e filePath s
      | ExtractionDone filePath file \<Rightarrow> extractionDone e filePath file s)"

definition fire :: "env \<Rightarrow> task \<Rightarrow> state \<Rightarrow> state" where
  "fire e t s =
     runCallback e (run t)
       (s\<lparr>pending := filter (\<lambda>u. task_id u \<noteq> task_id t) (pending s),
          clock := max (clock s) (due t)\<rparr>)"

fun weight :: "callback \<Rightarrow> nat" where
  "weight SaveCallback = 1"
| "weight (SettleCallback filePath) = 3"
| "weight (ExtractionDone filePath file) = 2"

definition load :: "task list \<Rightarrow> nat" where
  "load ts = sum_list (map (\<lambda>t. weight (run t)) ts)"

function runUntil :: "env \<Rightarrow> nat \<Rightarrow> state \<Rightarrow> state" where
  "runUntil e T s =
     (case earliest (pending s) of
        None \<Rightarrow> s\<lparr>clock := max (clock s) T\<rparr>
      | Some t \<Rightarrow>
          if due t \<le> T then runUntil e T (fire e t s)
          else s\<lparr>clock := max (clock s) T\<rparr>)"
  by pat_completeness auto
termination
proof (relation "measure (\<lambda>(e, T, s). load (pending s))")
  show "wf (measure (\<lambda>(e, T, s). load (pending s)))" by simp
next
  fix e :: env and T :: nat and s :: state and t :: task
  assume first: "earliest (pending s) = Some t" and "due t \<le> T"
  have member: "u \<in> set ts" if "earliest ts = Some u" for ts u
    using that by (induction ts arbitrary: u) (auto split: option.splits if_splits)
  have drop_le: "load (filter (\<lambda>u. task_id u \<noteq> h) ts) \<le> load ts" for h ts
    by (induction ts) (auto simp: load_def)
  have removed: "load (filter (\<lambda>u. task_id u \<noteq> task_id u') ts) + weight (run u') \<le> load ts"
    if "u' \<in> set ts" for ts u'
    using that
  proof (induction ts)
    case Nil
    then show ?case by simp
  next
    case (Cons x xs)
    show ?case
    proof (cases "task_id x = task_id u'")
      case True
      then show ?thesis
        using Cons drop_le [of "task_id u'" xs]
        by (cases "x = u'") (auto simp: load_def)
    next
      case False
      then show ?thesis using Cons by (auto simp: load_def)
    qed
  qed
  define s0 where "s0 = s\<lparr>pending := filter (\<lambda>u. task_id u \<noteq> task_id t) (pending s),
                            clock := max (clock s) (due t)\<rparr>"
  have base: "load (pending s0) + weight (run t) \<le> load (pending s)"
    using removed [OF member [OF first]] by (simp add: s0_def)
  have sched: "load (pending (scheduleSave x)) \<le> Suc (load (pending x))" for x
    using drop_le [of _ "pending x"]
    by (auto simp: scheduleSave_def setTimeout_def clearTimeout_def load_def Let_def
             split: option.splits)
  have "load (pending (runCallback e (run t) s0)) < load (pending s0) + weight (run t)"
  proof (cases "run t")
    case SaveCallback
    then show ?thesis
      by (simp add: runCallback_def saveCallback_def Let_def)
  next
    case (SettleCallback fp)
    then show ?thesis
      by (auto simp: runCallback_def settleCallback_def setTimeout_def load_def
               split: option.splits TAbstractFile.splits)
  next
    case (ExtractionDone fp tf)
    then show ?thesis
      using sched
      by (auto simp: runCallback_def extractionDone_def le_imp_less_Suc
               split: sum.splits prod.splits
               intro: le_less_trans [OF sched])
  qed
  then show "((e, T, fire e t s), (e, T, s)) \<in> measure (\<lambda>(e, T, s). load (pending s))"
    using base by (simp add: fire_def s0_def)
qed

declare runUntil.simps [simp del]

text \<open>The host delivering change events at the given times, the event loop running in
  between.\<close>

fun deliver :: "env \<Rightarrow> (nat \<times> string \<times> change_type) list \<Rightarrow> state \<Rightarrow> state" where
  "deliver e [] s = s"
| "deliver e ((t, filePath, type) # events) s =
     deliver e events (handleFileChange e filePath type (runUntil e t s))"

section \<open>Object identity\<close>

text \<open>
  The state above holds the cache by value. That is exact for the manager's own methods,
  which never assign to a field of a record they have stored, but it cannot say what a
  caller may do with what \<open>getAllMetadata\<close> returns. For that question the \<open>Map\<close> objects
  and the record objects are placed in a heap: a \<open>Map\<close> holds references to records.
\<close>

datatype heap_object =
    RecordObject TrackMetadata
  | MapObject "(string \<times> nat) list"

record heap =
  objects :: "nat \<Rightarrow> heap_object option"
  nextRef :: nat

definition entriesOf :: "heap \<Rightarrow> nat \<Rightarrow> (string \<times> nat) list" where
  "entriesOf h m = (case objects h m of Some (MapObject entries) \<Rightarrow> entries | _ \<Rightarrow> [])"

text \<open>\<open>new Map(other)\<close>: a fresh \<open>Map\<close> object with the entries of \<open>other\<close>, that is, with
  the same record references.\<close>

definition newMap :: "nat \<Rightarrow> heap \<Rightarrow> nat \<times> heap" where
  "newMap other h =
     (nextRef h,
      h\<lparr>objects := (objects h)(nextRef h \<mapsto> MapObject (entriesOf h other)),
        nextRef := Suc (nextRef h)\<rparr>)"

definition getAllMetadataRef :: "nat \<Rightarrow> heap \<Rightarrow> nat \<times> heap" where
  "getAllMetadataRef cacheRef h = newMap cacheRef h"

text \<open>What a caller can do with a reference it holds: the mutating methods of \<open>Map\<close>, and
  assignment to the fields of a record.\<close>

datatype mutation =
    MapSet nat string nat
  | MapDelete nat string
  | MapClear nat
  | RecordAssign nat TrackMetadata

fun mutate :: "mutation \<Rightarrow> heap \<Rightarrow> heap" where
  "mutate (MapSet m k r) h =
     (case objects h m of
        Some (MapObject entries) \<Rightarrow> h\<lparr>objects := (objects h)(m \<mapsto> MapObject (AList.update k r entries))\<rparr>
      | _ \<Rightarrow> h)"
| "mutate (MapDelete m k) h =
     (case objects h m of
        Some (MapObject entries) \<Rightarrow> h\<lparr>objects := (objects h)(m \<mapsto> MapObject (AList.delete k entries))\<rparr>
      | _ \<Rightarrow> h)"
| "mutate (MapClear m) h =
     (case objects h m of
        Some (MapObject entries) \<Rightarrow> h\<lparr>objects := (objects h)(m \<mapsto> MapObject [])\<rparr>
      | _ \<Rightarrow> h)"
| "mutate (RecordAssign r v) h =
     (case objects h r of
        Some (RecordObject old) \<Rightarrow> h\<lparr>objects := (objects h)(r \<mapsto> RecordObject v)\<rparr>
      | _ \<Rightarrow> h)"

fun target :: "mutation \<Rightarrow> nat" where
  "target (MapSet m k r) = m"
| "target (MapDelete m k) = m"
| "target (MapClear m) = m"
| "target (RecordAssign r v) = r"

text \<open>The contents of a \<open>Map\<close> object as the value-level state has them: every path with
  the record its reference points to.\<close>

definition contents :: "heap \<Rightarrow> nat \<Rightarrow> (string \<times> TrackMetadata option) list" where
  "contents h m =
     map (\<lambda>(k, r). (k, case objects h r of Some (RecordObject v) \<Rightarrow> Some v | _ \<Rightarrow> None))
         (entriesOf h m)"

text \<open>Every reference in use has been allocated.\<close>

definition allocated :: "heap \<Rightarrow> nat \<Rightarrow> bool" where
  "allocated h cacheRef =
     (cacheRef < nextRef h \<and> list_all (\<lambda>(k, r). r < nextRef h) (entriesOf h cacheRef))"

section \<open>The properties in the words of the specification\<close>

text \<open>A stored record needs re-extraction unless both its title and its artist are
  present and non-empty.\<close>

definition needsReExtraction :: "StoredMetadata \<Rightarrow> bool" where
  "needsReExtraction r =
     (\<not> (stored_title r \<noteq> None \<and> stored_title r \<noteq> Some []
         \<and> stored_artist r \<noteq> None \<and> stored_artist r \<noteq> Some []))"

text \<open>The lyrics field of the record an extraction resolved to, if it resolved.\<close>

definition resolvedLyrics :: "error + (TrackMetadata \<times> MetadataParser) \<Rightarrow> string option option" where
  "resolvedLyrics r = (case r of Inr (md, p) \<Rightarrow> Some (lyrics md) | Inl err \<Rightarrow> None)"

definition blank :: "string \<Rightarrow> bool" where
  "blank t = (trim t = [])"

text \<open>A cover value is a transient resource handle when it carries the \<open>blob:\<close> scheme.\<close>

definition isTransientHandle :: "string \<Rightarrow> bool" where
  "isTransientHandle c = startsWith c ''blob:''"

text \<open>The record the round trip is said to give back: the cover dropped when it is a
  transient handle, every other field as it was.\<close>

definition withoutTransientCover :: "TrackMetadata \<Rightarrow> TrackMetadata" where
  "withoutTransientCover m =
     m\<lparr>cover := (case cover m of
                    Some c \<Rightarrow> if isTransientHandle c then None else Some c
                  | None \<Rightarrow> None)\<rparr>"

text \<open>The same with an empty lyrics text turned into \<open>null\<close> as well.\<close>

definition withoutEmptyLyrics :: "TrackMetadata \<Rightarrow> TrackMetadata" where
  "withoutEmptyLyrics m = m\<lparr>lyrics := (if lyrics m = Some [] then None else lyrics m)\<rparr>"

text \<open>The record an extraction of a file leaves in the cache during a full refresh: what
  the parser resolved, or the per-file default when the extraction was rejected.\<close>

definition extractionOutcome :: "env \<Rightarrow> TFile \<Rightarrow> MetadataParser \<Rightarrow> TrackMetadata" where
  "extractionOutcome e file p =
     (case extractFileMetadata e file p of
        Inr (md, q) \<Rightarrow> md
      | Inl err \<Rightarrow> fileDefaultMetadata file)"

text \<open>What a full refresh stores for a file: the per-file default when reading the
  stored data throws, the reused record when the stored one is complete, the outcome of
  an extraction otherwise. A file is due for extraction in the last case.\<close>

definition entryWritten :: "env \<Rightarrow> ExistingData \<Rightarrow> TFile \<Rightarrow> MetadataParser \<Rightarrow> TrackMetadata" where
  "entryWritten e existingData file p =
     (case metadataOf existingData of
        Inl err \<Rightarrow> fileDefaultMetadata file
      | Inr m \<Rightarrow>
          (case existingEntry existingData (path file) of
             None \<Rightarrow> extractionOutcome e file p
           | Some r \<Rightarrow>
               if needsReExtraction r then extractionOutcome e file p
               else reusedMetadata (the (stored_title r)) (the (stored_artist r)) r))"


text \<open>One task of the batch, and the state once an awaited refresh has returned.\<close>

definition settleStep :: "env \<Rightarrow> ExistingData \<Rightarrow> TFile \<Rightarrow> state \<Rightarrow> state" where
  "settleStep e existingData file st =
     (case processFileIfNeeded e file existingData st of Inr st' \<Rightarrow> st' | Inl err \<Rightarrow> st)"

definition refreshed :: "env \<Rightarrow> string list \<Rightarrow> state \<Rightarrow> state" where
  "refreshed e musicFolderPaths s = snd (refreshAllMetadata e musicFolderPaths s)"

text \<open>The folders a refresh looks at, and a vault in which a path names one file.\<close>

definition validFoldersOf :: "string list \<Rightarrow> string list" where
  "validFoldersOf musicFolderPaths = filter (\<lambda>p. \<not> blank p) musicFolderPaths"

definition onlyFileAtItsPath :: "env \<Rightarrow> TFile \<Rightarrow> bool" where
  "onlyFileAtItsPath e file = list_all (\<lambda>g. path g = path file \<longrightarrow> g = file) (vault_getFiles e)"

text \<open>The flush timers that are queued, and the bookkeeping that ties them to
  \<open>saveTimeout\<close>: handles are fresh, no handle is queued twice, and a queued task is
  a flush timer exactly when \<open>saveTimeout\<close> holds its handle.\<close>

definition flushesPending :: "state \<Rightarrow> task list" where
  "flushesPending s = filter (\<lambda>t. run t = SaveCallback) (pending s)"

definition othersPending :: "state \<Rightarrow> task list" where
  "othersPending s = filter (\<lambda>t. run t \<noteq> SaveCallback) (pending s)"

definition timersOk :: "state \<Rightarrow> bool" where
  "timersOk s =
     (list_all (\<lambda>t. task_id t < nextId s) (pending s)
      \<and> distinct (map task_id (pending s))
      \<and> list_all (\<lambda>t. (run t = SaveCallback) = (saveTimeout s = Some (task_id t))) (pending s)
      \<and> (case saveTimeout s of Some h \<Rightarrow> h < nextId s | None \<Rightarrow> True))"

text \<open>The states a manager can be in: it starts with nothing queued, and then its methods
  are called and time passes.\<close>

inductive reachable :: "env \<Rightarrow> state \<Rightarrow> bool" for e :: env where
  start: "pending s = [] \<Longrightarrow> saveTimeout s = None \<Longrightarrow> reachable e s"
| change: "reachable e s \<Longrightarrow> reachable e (handleFileChange e filePath type s)"
| time: "reachable e s \<Longrightarrow> reachable e (runUntil e T s)"
| refresh: "reachable e s \<Longrightarrow> reachable e (refreshed e musicFolderPaths s)"
| initialize: "reachable e s \<Longrightarrow> reachable e (initializeFromSettings settings s)"
| callback: "reachable e s \<Longrightarrow> reachable e (setSaveCallback s)"
| clean: "reachable e s \<Longrightarrow> reachable e (cleanup s)"

text \<open>
  A burst of modify events, given by their times and paths. An event is complete when its
  settle delay has passed and its extraction has finished; a path is extractable when the
  event for it gets as far as storing a record.
\<close>

definition modifyEvents :: "(nat \<times> string) list \<Rightarrow> (nat \<times> string \<times> change_type) list" where
  "modifyEvents events = map (\<lambda>(t, filePath). (t, filePath, Modify)) events"

definition completionOf :: "env \<Rightarrow> nat \<times> string \<Rightarrow> nat" where
  "completionOf e event = fst event + 500 + extractionTime e (snd event)"

definition readable :: "env \<Rightarrow> TFile \<Rightarrow> bool" where
  "readable e file = (case vault_readBinary e file of Inr arrayBuffer \<Rightarrow> True | Inl err \<Rightarrow> False)"

definition fileReadable :: "env \<Rightarrow> string \<Rightarrow> bool" where
  "fileReadable e filePath =
     (case vault_getAbstractFileByPath e filePath of
        Some (File file) \<Rightarrow> readable e file
      | _ \<Rightarrow> False)"

definition extractable :: "env \<Rightarrow> string \<Rightarrow> bool" where
  "extractable e filePath = (isSupportedAudioFile e (lastSegment filePath) \<and> fileReadable e filePath)"

definition latest :: "nat list \<Rightarrow> nat" where
  "latest ts = fold max ts 0"

definition withinWindow :: "nat list \<Rightarrow> bool" where
  "withinWindow ts = list_all (\<lambda>a. list_all (\<lambda>b. b < a + 500) ts) ts"

text \<open>The time at which a queued task has led, or will lead, to a call of
  \<open>scheduleSave\<close>, and the condition under which it does.\<close>

definition mark :: "env \<Rightarrow> task \<Rightarrow> nat" where
  "mark e u =
     (case run u of
        SaveCallback \<Rightarrow> due u - 500
      | SettleCallback filePath \<Rightarrow> due u + extractionTime e filePath
      | ExtractionDone filePath file \<Rightarrow> due u)"

definition taskOk :: "env \<Rightarrow> task \<Rightarrow> bool" where
  "taskOk e u =
     (case run u of
        SaveCallback \<Rightarrow> True
      | SettleCallback filePath \<Rightarrow> fileReadable e filePath
      | ExtractionDone filePath file \<Rightarrow>
          vault_getAbstractFileByPath e filePath = Some (File file) \<and> readable e file)"

text \<open>
  The state of a manager in the middle of a burst whose extractions complete between \<open>A\<close>
  and \<open>C\<close>, less than 500 ms apart, with the events \<open>events\<close> still to be delivered: no
  queued task is overdue, the queued settle timers and extractions complete inside the
  window, a queued flush timer was set inside the window, and \<open>C\<close> is attained.
\<close>

definition taskInBurst :: "env \<Rightarrow> nat \<Rightarrow> nat \<Rightarrow> state \<Rightarrow> task \<Rightarrow> bool" where
  "taskInBurst e A C s u =
     (clock s \<le> due u \<and> taskOk e u \<and> A \<le> mark e u \<and> mark e u \<le> C
      \<and> (if run u = SaveCallback then A + 500 \<le> due u \<and> due u \<le> clock s + 500
          else mark e u < A + 500))"

definition eventInBurst :: "env \<Rightarrow> nat \<Rightarrow> nat \<Rightarrow> state \<Rightarrow> nat \<times> string \<Rightarrow> bool" where
  "eventInBurst e A C s event =
     (clock s \<le> fst event \<and> extractable e (snd event)
      \<and> A \<le> completionOf e event \<and> completionOf e event \<le> C
      \<and> completionOf e event < A + 500
      \<and> list_all (\<lambda>u. fst event < due u) (pending s))"

definition bursting :: "env \<Rightarrow> nat \<Rightarrow> nat \<Rightarrow> (nat \<times> string) list \<Rightarrow> state \<Rightarrow> bool" where
  "bursting e A C events s =
     (timersOk s \<and> onSaveNeeded s
      \<and> list_all (taskInBurst e A C s) (pending s)
      \<and> list_all (eventInBurst e A C s) events
      \<and> (list_ex (\<lambda>u. mark e u = C) (pending s) \<or> list_ex (\<lambda>ev. completionOf e ev = C) events)
      \<and> (pending s \<noteq> [] \<or> events \<noteq> []))"

text \<open>A path is covered when the cache holds a record extracted from its file or a
  queued task will store one.\<close>

definition storesFor :: "string \<Rightarrow> task \<Rightarrow> bool" where
  "storesFor filePath u =
     (case run u of
        SaveCallback \<Rightarrow> False
      | SettleCallback q \<Rightarrow> q = filePath
      | ExtractionDone q file \<Rightarrow> q = filePath)"

definition covered :: "env \<Rightarrow> string \<Rightarrow> state \<Rightarrow> bool" where
  "covered e filePath s =
     ((\<exists>file p. vault_getAbstractFileByPath e filePath = Some (File file)
                \<and> getMetadata s filePath = Some (extractionOutcome e file p))
      \<or> list_ex (storesFor filePath) (pending s))"

section \<open>Example inputs\<close>

text \<open>A small vault and a fresh manager, on which the model is run below.\<close>

definition isMp3 :: "string \<Rightarrow> bool" where
  "isMp3 n = startsWith (rev (toLowerCase n)) ''3pm.''"

definition songFile :: TFile where
  "songFile = \<lparr>path = ''Music/song.mp3'', name = ''song.mp3'', basename = ''song''\<rparr>"

definition tuneFile :: TFile where
  "tuneFile = \<lparr>path = ''Music/tune.mp3'', name = ''tune.mp3'', basename = ''tune''\<rparr>"

definition lrcFile :: TFile where
  "lrcFile = \<lparr>path = ''Music/song.lrc'', name = ''song.lrc'', basename = ''song''\<rparr>"

definition noCommon :: ICommonTagsResult where
  "noCommon = \<lparr>common_title = None, common_artist = None, common_album = None,
                common_picture = None, common_lyrics = JUndefined\<rparr>"

text \<open>
  The tag set \<open>music-metadata\<close> decodes from an MP3 buffer whose ID3v2.3 tag holds a title
  frame and one TXXX frame with description "Lyrics-XXX" and text "line1\<newline>line2":
  the decoder lists the frames under the container name of the tag version, a TXXX frame
  under the id \<open>TXXX:\<close> followed by its description, with its text as the value. No
  common lyrics field is derived from such a frame.
\<close>

definition txxxBufferTags :: IAudioMetadata where
  "txxxBufferTags =
     \<lparr>common = noCommon\<lparr>common_title := Some ''A song''\<rparr>,
      native = (\<lambda>k. if k = ''ID3v2.3''
                    then Some [\<lparr>tag_id = ''TIT2'', tag_value = JStr ''A song''\<rparr>,
                               \<lparr>tag_id = ''TXXX:Lyrics-XXX'',
                                tag_value = JStr (''line1'' @ [CHR 0x0A] @ ''line2'')\<rparr>]
                    else None)\<rparr>"

definition usltExample :: IAudioMetadata where
  "usltExample =
     \<lparr>common = noCommon,
      native = (\<lambda>k. if k = ''id3v2''
                    then Some [\<lparr>tag_id = ''USLT'',
                                tag_value = JObj [(''language'', JStr ''eng''),
                                                  (''description'', JStr []),
                                                  (''text'', JStr ''embedded words'')]\<rparr>]
                    else None)\<rparr>"

text \<open>A vault with two audio files and a sidecar file next to the first. Every buffer
  decodes to \<open>usltExample\<close>.\<close>

definition vaultEnv :: env where
  "vaultEnv =
     \<lparr>isSupportedAudioFile = isMp3,
      normalizePath = (\<lambda>p. p),
      vault_getFiles = [songFile, tuneFile, lrcFile],
      vault_getAbstractFileByPath =
        (\<lambda>p. if p = ''Music/song.mp3'' then Some (File songFile)
             else if p = ''Music/tune.mp3'' then Some (File tuneFile)
             else if p = ''Music/song.lrc'' then Some (File lrcFile)
             else if p = ''Music'' then Some Folder
             else None),
      vault_readBinary = (\<lambda>f. Inr []),
      vault_read = (\<lambda>f. if path f = ''Music/song.lrc'' then Inr ''[00:01.00]sidecar words''
                         else Inl ReadError),
      vault_configDir = ''.obsidian'',
      jsonParse = (\<lambda>c. Inl JSONError),
      parseBuffer = (\<lambda>b. Inr usltExample),
      createObjectURL = (\<lambda>p. Inl URLError),
      extractionTime = (\<lambda>p. 0)\<rparr>"

text \<open>The same vault when no buffer can be decoded, and when no file can be read.\<close>

definition undecodableEnv :: env where
  "undecodableEnv = vaultEnv\<lparr>parseBuffer := (\<lambda>b. Inl ParseError)\<rparr>"

definition unreadableEnv :: env where
  "unreadableEnv = vaultEnv\<lparr>vault_readBinary := (\<lambda>f. Inl ReadError)\<rparr>"

definition freshParser :: MetadataParser where
  "freshParser = \<lparr>blobUrls = []\<rparr>"

definition freshState :: state where
  "freshState =
     \<lparr>cache = [], isDirty = False, saveTimeout = None, onSaveNeeded = True,
      isInitialized = False, totalTracks = 0, processedTracks = 0,
      parser = freshParser, pending = [], nextId = 1, clock = 0, saveRequests = []\<rparr>"

definition songRecord :: TrackMetadata where
  "songRecord = \<lparr>title = ''Song'', artist = ''Band'', album = ''Album'',
                  cover = None, lyrics = None\<rparr>"

definition persistedExample :: "(string \<times> TrackMetadata) list" where
  "persistedExample =
     [(''Music/song.mp3'', \<lparr>title = ''Song'', artist = ''Band'', album = ''Album'',
                             cover = Some ''blob:app://obsidian.md/0a1b'',
                             lyrics = Some ''[00:01.00]words''\<rparr>),
      (''Music/tune.mp3'', \<lparr>title = ''Tune'', artist = ''Band'', album = ''Album'',
                             cover = Some ''data:image/png;base64,AAAA'', lyrics = Some []\<rparr>)]"

text \<open>A stored record without a title, and the vault with a \<open>data.json\<close> that holds it
  for the first audio file.\<close>

definition untitledRecord :: StoredMetadata where
  "untitledRecord = \<lparr>stored_title = Some [], stored_artist = Some ''A'', stored_album = Some ''B'',
                      stored_cover = None, stored_lyrics = None\<rparr>"

definition dataFile :: TFile where
  "dataFile = \<lparr>path = ''.obsidian/plugins/albus-status-bar-music/data.json'',
                name = ''data.json'', basename = ''data''\<rparr>"

definition persistedEnv :: env where
  "persistedEnv =
     vaultEnv\<lparr>vault_getAbstractFileByPath :=
                 (\<lambda>p. if p = ''.obsidian/plugins/albus-status-bar-music/data.json''
                      then Some (File dataFile) else vault_getAbstractFileByPath vaultEnv p),
               vault_read :=
                 (\<lambda>f. if path f = ''.obsidian/plugins/albus-status-bar-music/data.json''
                      then Inr ''{}'' else vault_read vaultEnv f),
               jsonParse :=
                 (\<lambda>c. Inr (DataObject (Some [(''Music/song.mp3'', untitledRecord)])))\<rparr>"

text \<open>A heap with the manager's \<open>Map\<close> at reference 0, holding one record at
  reference 1.\<close>

definition exampleHeap :: heap where
  "exampleHeap =
     \<lparr>objects = [0 \<mapsto> MapObject [(''Music/song.mp3'', 1)], 1 \<mapsto> RecordObject songRecord],
      nextRef = 2\<rparr>"

text \<open>A manager whose cache holds a record for an audio file and one for a text
  file.\<close>

definition cachedState :: state where
  "cachedState = freshState\<lparr>cache := [(''Music/song.mp3'', songRecord), (''Notes/memo.txt'', songRecord)]\<rparr>"

text \<open>The vault when the second audio file takes 600 ms to extract.\<close>

definition slowEnv :: env where
  "slowEnv = vaultEnv\<lparr>extractionTime := (\<lambda>p. if p = ''Music/tune.mp3'' then 600 else 0)\<rparr>"

text \<open>Two modify events, 200 ms apart, for the two audio files.\<close>

definition burstExample :: "(nat \<times> string) list" where
  "burstExample = [(1000, ''Music/song.mp3''), (1200, ''Music/tune.mp3'')]"

text \<open>The vault with a \<open>data.json\<close> whose content is the JSON text \<open>null\<close>.\<close>

definition nullDataEnv :: env where
  "nullDataEnv =
     persistedEnv\<lparr>vault_read :=
                    (\<lambda>f. if path f = ''.obsidian/plugins/albus-status-bar-music/data.json''
                         then Inr ''null'' else vault_read vaultEnv f),
                  jsonParse := (\<lambda>c. Inr NullData)\<rparr>"

section \<open>Verification\<close>

text \<open>The equations that run the model on the example inputs.\<close>

lemmas model_defs =
  refreshed_def refreshAllMetadata_def settleAll_def musicFilesIn_def loadExistingData_def dataPath_def
  processFileIfNeeded_def processFileTry_def extractAndStore_def completeFields_def
  reusedMetadata_def fileDefaultMetadata_def extractFileMetadata_def readLrcFile_def lrcPathOf_def
  extractMetadata_def extractCover_def resolveLyrics_def extractLyrics_def extractLyricsBody_def
  commonLyrics_def tagLyrics_def txxxLyrics_def isLyricsTXXX_def DEFAULT_METADATA_def
  scheduleSave_def setTimeout_def clearTimeout_def getMetadata_def trim_def isWhiteSpace_def
  isWhiteSpace2_def isWhiteSpace3_def
  toLowerCase_def toLowerChar_def Let_def

lemmas example_defs =
  vaultEnv_def undecodableEnv_def unreadableEnv_def persistedEnv_def songFile_def tuneFile_def
  lrcFile_def dataFile_def usltExample_def txxxBufferTags_def nullDataEnv_def noCommon_def freshState_def
  freshParser_def isMp3_def untitledRecord_def cachedState_def songRecord_def


subsection \<open>Decode failures\<close>

text \<open>
  Claim C2. \<open>extractMetadata\<close> never rejects, and for every buffer the decoder fails on it
  resolves to the default placeholder record (title "Unknown Title", artist "Unknown
  Artist", album "Unknown Album", no cover, no lyrics), leaving the parser as it was.
\<close>

theorem extractMetadata_decode_failure:
  "(\<exists>r. extractMetadata e p arrayBuffer lyricsFromLrcFile = Inr r)
   \<and> (parseBuffer e arrayBuffer = Inl err \<longrightarrow>
        extractMetadata e p arrayBuffer lyricsFromLrcFile =
          Inr (\<lparr>title = ''Unknown Title'', artist = ''Unknown Artist'', album = ''Unknown Album'',
                cover = None, lyrics = None\<rparr>, p))"
  by (auto simp: extractMetadata_def DEFAULT_METADATA_def Let_def split: sum.splits prod.splits)

theorem extractMetadata_decode_failure_witness:
  "parseBuffer undecodableEnv [0x49, 0x44, 0x33] = Inl ParseError
   \<and> extractMetadata undecodableEnv freshParser [0x49, 0x44, 0x33] None =
       Inr (\<lparr>title = ''Unknown Title'', artist = ''Unknown Artist'', album = ''Unknown Album'',
             cover = None, lyrics = None\<rparr>, freshParser)"
  using extractMetadata_decode_failure [of undecodableEnv freshParser "[0x49, 0x44, 0x33]" None ParseError]
  by (simp add: undecodableEnv_def vaultEnv_def)

subsection \<open>Sidecar lyrics\<close>

lemma trim_empty: "trim [] = []"
  by (simp add: trim_def)

text \<open>A byte order mark, an ideographic space and a no-break space are trimmed like the
  ASCII blanks; the ideographic comma U+3001 is not.\<close>

lemma trim_unicode_whitespace:
  "trim ([CHR 0xEF, CHR 0xBB, CHR 0xBF] @ '' a b'' @ [CHR 0xE3, CHR 0x80, CHR 0x80, CHR 0xC2, CHR 0xA0])
     = ''a b''
   \<and> blank [CHR 0xE3, CHR 0x80, CHR 0x80, CHR 0x0A]
   \<and> \<not> blank [CHR 0xE3, CHR 0x80, CHR 0x81]"
  by (simp add: blank_def trim_def isWhiteSpace_def isWhiteSpace2_def isWhiteSpace3_def)

lemma readLrcFile_Some:
  "readLrcFile e file = Some t \<longleftrightarrow>
     (\<exists>lf. vault_getAbstractFileByPath e (lrcPathOf (path file)) = Some (File lf)
           \<and> vault_read e lf = Inr t \<and> \<not> blank t)"
  by (auto simp: readLrcFile_def blank_def trim_empty
        split: option.splits TAbstractFile.splits sum.splits)

lemma readLrcFile_nonempty: "readLrcFile e file = Some t \<Longrightarrow> t \<noteq> []"
  by (auto simp: readLrcFile_def split: option.splits TAbstractFile.splits sum.splits if_splits)

text \<open>
  Claim C3, as amended. When the buffer decodes, a sidecar text handed to
  \<open>extractMetadata\<close> that is a non-empty string is the resolved lyrics, verbatim and
  whatever the embedded tags hold; with no text or an empty one the embedded-tag chain
  decides. When the buffer does not decode, the result is the default placeholder record,
  with no lyrics, whatever text was handed in. \<open>extractFileMetadata\<close> hands in the
  contents of the sidecar file exactly when that file exists, can be read and is not
  blank, so that through it a blank sidecar falls through to the embedded-tag chain.
\<close>

theorem sidecar_lyrics_resolution:
  "(parseBuffer e b = Inr md \<longrightarrow>
      (t \<noteq> [] \<longrightarrow> resolvedLyrics (extractMetadata e p b (Some t)) = Some (Some t))
      \<and> resolvedLyrics (extractMetadata e p b (Some [])) = Some (extractLyrics md)
      \<and> resolvedLyrics (extractMetadata e p b None) = Some (extractLyrics md))
   \<and> (parseBuffer e b = Inl err \<longrightarrow>
        extractMetadata e p b lrc = Inr (DEFAULT_METADATA, p) \<and> lyrics DEFAULT_METADATA = None)
   \<and> (vault_readBinary e file = Inr b \<and> parseBuffer e b = Inl err \<longrightarrow>
        extractFileMetadata e file p = Inr (DEFAULT_METADATA, p))
   \<and> (vault_readBinary e file = Inr b \<and> parseBuffer e b = Inr md \<longrightarrow>
        resolvedLyrics (extractFileMetadata e file p) =
          Some (case readLrcFile e file of Some t \<Rightarrow> Some t | None \<Rightarrow> extractLyrics md))
   \<and> (readLrcFile e file = Some t \<longleftrightarrow>
        (\<exists>lf. vault_getAbstractFileByPath e (lrcPathOf (path file)) = Some (File lf)
              \<and> vault_read e lf = Inr t \<and> \<not> blank t))"
  apply (intro conjI impI)
  subgoal by (simp add: extractMetadata_def resolvedLyrics_def resolveLyrics_def Let_def split: prod.splits)
  subgoal by (simp add: extractMetadata_def resolvedLyrics_def resolveLyrics_def Let_def split: prod.splits)
  subgoal by (simp add: extractMetadata_def resolvedLyrics_def resolveLyrics_def Let_def split: prod.splits)
  subgoal by (simp add: extractMetadata_def)
  subgoal by (simp add: DEFAULT_METADATA_def)
  subgoal by (simp add: extractFileMetadata_def extractMetadata_def)
  subgoal
    using readLrcFile_nonempty [of e "file"]
    by (cases "readLrcFile e file")
       (simp_all add: extractFileMetadata_def extractMetadata_def resolvedLyrics_def
          resolveLyrics_def Let_def split: prod.splits)
  subgoal by (rule readLrcFile_Some)
  done

theorem sidecar_lyrics_resolution_witness:
  "parseBuffer vaultEnv [] = Inr usltExample
   \<and> resolvedLyrics (extractMetadata vaultEnv freshParser [] (Some ''sidecar words'')) = Some (Some ''sidecar words'')
   \<and> extractLyrics usltExample = Some ''embedded words''
   \<and> resolvedLyrics (extractMetadata vaultEnv freshParser [] None) = Some (Some ''embedded words'')
   \<and> parseBuffer undecodableEnv [] = Inl ParseError
   \<and> vault_readBinary undecodableEnv songFile = Inr []
   \<and> extractFileMetadata undecodableEnv songFile freshParser = Inr (DEFAULT_METADATA, freshParser)
   \<and> resolvedLyrics (extractFileMetadata vaultEnv songFile freshParser) = Some (Some ''[00:01.00]sidecar words'')
   \<and> resolvedLyrics (extractFileMetadata vaultEnv tuneFile freshParser) = Some (Some ''embedded words'')"
proof -
  have env: "parseBuffer vaultEnv [] = Inr usltExample" "parseBuffer undecodableEnv [] = Inl ParseError"
    "vault_readBinary undecodableEnv songFile = Inr []" "vault_readBinary vaultEnv songFile = Inr []"
    "vault_readBinary vaultEnv tuneFile = Inr []"
    by (simp_all add: vaultEnv_def undecodableEnv_def)
  have side: "readLrcFile vaultEnv songFile = Some ''[00:01.00]sidecar words''"
    "readLrcFile vaultEnv tuneFile = None"
    by (simp_all add: model_defs example_defs)
  have tags: "extractLyrics usltExample = Some ''embedded words''"
    by (simp add: model_defs example_defs)
  note song = sidecar_lyrics_resolution [of vaultEnv "[]" usltExample "''sidecar words''" freshParser
      ParseError None songFile]
  note tune = sidecar_lyrics_resolution [of vaultEnv "[]" usltExample "''sidecar words''" freshParser
      ParseError None tuneFile]
  note gone = sidecar_lyrics_resolution [of undecodableEnv "[]" usltExample "''sidecar words''"
      freshParser ParseError None songFile]
  have a: "resolvedLyrics (extractMetadata vaultEnv freshParser [] (Some ''sidecar words''))
      = Some (Some ''sidecar words'')"
    "resolvedLyrics (extractMetadata vaultEnv freshParser [] None) = Some (Some ''embedded words'')"
    using song env(1) tags by simp_all
  have b: "extractFileMetadata undecodableEnv songFile freshParser = Inr (DEFAULT_METADATA, freshParser)"
    using gone env(2,3) by blast
  have c: "resolvedLyrics (extractFileMetadata vaultEnv songFile freshParser)
      = Some (Some ''[00:01.00]sidecar words'')"
    using song env(1,4) side(1) by simp
  have d: "resolvedLyrics (extractFileMetadata vaultEnv tuneFile freshParser)
      = Some (Some ''embedded words'')"
    using tune env(1,5) side(2) tags by simp
  show ?thesis
    using env(1,2,3) tags a b c d by (simp only: simp_thms)
qed

text \<open>
  The claim as stated fails twice: a non-blank sidecar text is dropped when the audio
  buffer cannot be decoded, and a blank text of two spaces handed to \<open>extractMetadata\<close>
  is used although the tags hold lyrics.
\<close>

theorem sidecar_lyrics_counterexample:
  "readLrcFile undecodableEnv songFile = Some ''[00:01.00]sidecar words''
   \<and> resolvedLyrics (extractFileMetadata undecodableEnv songFile freshParser) = Some None
   \<and> blank ''  ''
   \<and> extractLyrics usltExample = Some ''embedded words''
   \<and> resolvedLyrics (extractMetadata vaultEnv freshParser [] (Some ''  '')) = Some (Some ''  '')"
  by (simp add: model_defs example_defs resolvedLyrics_def blank_def)

subsection \<open>Embedded lyrics\<close>

text \<open>
  Claim C6, at the input on which the code departs from it. In the tag set decoded from a
  buffer whose only lyrics-bearing tag is a TXXX frame with description "Lyrics-XXX" and
  text "line1\<newline>line2", there are no common lyrics, no container is named \<open>id3v2\<close> and
  no tag carries the id \<open>TXXX\<close>; every step of \<open>extractLyrics\<close> passes and no lyrics are
  resolved.
\<close>

theorem txxx_frame_of_buffer_not_found:
  "commonLyrics txxxBufferTags = None
   \<and> native txxxBufferTags ''id3v2'' = None
   \<and> native txxxBufferTags ''ID3v2.3''
       = Some [\<lparr>tag_id = ''TIT2'', tag_value = JStr ''A song''\<rparr>,
               \<lparr>tag_id = ''TXXX:Lyrics-XXX'', tag_value = JStr (''line1'' @ [CHR 0x0A] @ ''line2'')\<rparr>]
   \<and> extractLyrics txxxBufferTags = None"
  by (simp add: model_defs example_defs)

subsection \<open>Snapshot round trip\<close>

lemma update_fresh_key:
  "k \<notin> fst ` set al \<Longrightarrow> AList.update k v al = al @ [(k, v)]"
  by (induction al) auto

lemma restoreEntry_eq: "restoreEntry m = withoutEmptyLyrics (withoutTransientCover m)"
  by (cases "cover m"; cases "lyrics m")
     (auto simp: restoreEntry_def withoutEmptyLyrics_def withoutTransientCover_def
        isTransientHandle_def Let_def)

lemma restore_fold_cache:
  "distinct (map fst entries) \<Longrightarrow> fst ` set entries \<inter> fst ` set (cache st) = {} \<Longrightarrow>
   cache (fold (\<lambda>(p, m) st. st\<lparr>cache := AList.update p (restoreEntry m) (cache st),
                                  processedTracks := Suc (processedTracks st)\<rparr>) entries st)
     = cache st @ map (\<lambda>(p, m). (p, restoreEntry m)) entries"
proof (induction entries arbitrary: st)
  case Nil
  then show ?case by simp
next
  case (Cons x xs)
  obtain p m where x: "x = (p, m)" by (cases x)
  have fresh: "p \<notin> fst ` set (cache st)" using Cons.prems(2) x by auto
  let ?st = "st\<lparr>cache := AList.update p (restoreEntry m) (cache st),
                 processedTracks := Suc (processedTracks st)\<rparr>"
  have "fst ` set xs \<inter> fst ` set (cache ?st) = {}"
    using Cons.prems x fresh by (auto simp: update_fresh_key)
  moreover have "distinct (map fst xs)" using Cons.prems(1) by simp
  ultimately show ?case
    using Cons.IH [of ?st] x fresh by (simp add: update_fresh_key)
qed

text \<open>
  Claim C4, as amended. For every snapshot with one entry per path, exporting after
  initialising from it gives the snapshot back entry by entry and in the same order,
  except that a cover carrying the \<open>blob:\<close> scheme becomes \<open>null\<close> and an empty lyrics
  text becomes \<open>null\<close>; titles, artists, albums, other covers and non-empty lyrics are
  restored verbatim. Settings without a metadata field export as an empty mapping.
\<close>

theorem snapshot_round_trip:
  "(distinct (map fst entries) \<longrightarrow>
      exportToSettings (initializeFromSettings \<lparr>metadata = Some entries\<rparr> s)
        = \<lparr>metadata = Some (map (\<lambda>(p, m). (p, withoutEmptyLyrics (withoutTransientCover m))) entries)\<rparr>)
   \<and> exportToSettings (initializeFromSettings \<lparr>metadata = None\<rparr> s) = \<lparr>metadata = Some []\<rparr>"
proof (intro conjI impI)
  assume d: "distinct (map fst entries)"
  let ?s1 = "s\<lparr>cache := [], isInitialized := False, processedTracks := 0, totalTracks := length entries\<rparr>"
  have "cache (fold (\<lambda>(p, m) st. st\<lparr>cache := AList.update p (restoreEntry m) (cache st),
                                  processedTracks := Suc (processedTracks st)\<rparr>) entries ?s1)
        = map (\<lambda>(p, m). (p, restoreEntry m)) entries"
    using restore_fold_cache [OF d, of ?s1] by simp
  then show "exportToSettings (initializeFromSettings \<lparr>metadata = Some entries\<rparr> s)
        = \<lparr>metadata = Some (map (\<lambda>(p, m). (p, withoutEmptyLyrics (withoutTransientCover m))) entries)\<rparr>"
    by (simp add: exportToSettings_def initializeFromSettings_def Let_def restoreEntry_eq)
next
  show "exportToSettings (initializeFromSettings \<lparr>metadata = None\<rparr> s) = \<lparr>metadata = Some []\<rparr>"
    by (simp add: exportToSettings_def initializeFromSettings_def Let_def)
qed

theorem snapshot_round_trip_witness:
  "distinct (map fst persistedExample)
   \<and> exportToSettings (initializeFromSettings \<lparr>metadata = Some persistedExample\<rparr> freshState)
       = \<lparr>metadata = Some
           [(''Music/song.mp3'', \<lparr>title = ''Song'', artist = ''Band'', album = ''Album'',
                                   cover = None, lyrics = Some ''[00:01.00]words''\<rparr>),
            (''Music/tune.mp3'', \<lparr>title = ''Tune'', artist = ''Band'', album = ''Album'',
                                   cover = Some ''data:image/png;base64,AAAA'', lyrics = None\<rparr>)]\<rparr>"
  using snapshot_round_trip [of persistedExample freshState]
  by (simp add: persistedExample_def withoutEmptyLyrics_def withoutTransientCover_def isTransientHandle_def)

text \<open>
  The claim as stated fails for a stored record whose lyrics are the empty text: they come
  back as \<open>null\<close>, although the cover is no transient handle.
\<close>

theorem snapshot_round_trip_counterexample:
  "exportToSettings (initializeFromSettings
       \<lparr>metadata = Some [(''Music/tune.mp3'', \<lparr>title = ''Tune'', artist = ''Band'', album = ''Album'',
                                                cover = None, lyrics = Some []\<rparr>)]\<rparr> freshState)
     = \<lparr>metadata = Some [(''Music/tune.mp3'', \<lparr>title = ''Tune'', artist = ''Band'', album = ''Album'',
                                               cover = None, lyrics = None\<rparr>)]\<rparr>
   \<and> withoutTransientCover \<lparr>title = ''Tune'', artist = ''Band'', album = ''Album'',
                              cover = None, lyrics = Some []\<rparr>
       = \<lparr>title = ''Tune'', artist = ''Band'', album = ''Album'', cover = None, lyrics = Some []\<rparr>"
  by (simp add: exportToSettings_def initializeFromSettings_def restoreEntry_def Let_def
        withoutTransientCover_def freshState_def)


subsection \<open>Reuse or re-extraction\<close>

lemma needsReExtraction_iff: "needsReExtraction r \<longleftrightarrow> completeFields r = None"
  by (auto simp: needsReExtraction_def completeFields_def split: option.splits)

lemma completeFields_Some:
  "completeFields r = Some (t, a) \<Longrightarrow> stored_title r = Some t \<and> stored_artist r = Some a"
  by (auto simp: completeFields_def split: option.splits if_splits)

lemma processFileIfNeeded_cache:
  "\<exists>s'. processFileIfNeeded e file existingData s = Inr s'
        \<and> cache s' = AList.update (path file) (entryWritten e existingData file (parser s)) (cache s)"
  by (cases existingData)
     (auto simp: processFileIfNeeded_def processFileTry_def extractAndStore_def entryWritten_def
        extractionOutcome_def needsReExtraction_iff
        dest: completeFields_Some
        split: option.splits sum.splits prod.splits)

lemma settleStep_cache:
  "cache (settleStep e existingData file st)
     = AList.update (path file) (entryWritten e existingData file (parser st)) (cache st)"
  using processFileIfNeeded_cache [of e "file" existingData st]
  by (auto simp: settleStep_def)

lemma settleAll_snoc:
  "settleAll e existingData (files @ [file]) s
     = settleStep e existingData file (settleAll e existingData files s)"
  by (simp add: settleAll_def settleStep_def)


lemma settleAll_entry:
  "file \<in> set files \<Longrightarrow> \<forall>g \<in> set files. path g = path file \<longrightarrow> g = file \<Longrightarrow>
   \<exists>p. map_of (cache (settleAll e existingData files s)) (path file)
         = Some (entryWritten e existingData file p)"
proof (induction files rule: rev_induct)
  case Nil
  then show ?case by simp
next
  case (snoc x xs)
  show ?case
  proof (cases "path x = path file")
    case True
    then have "x = file" using snoc.prems(2) by simp
    then show ?thesis
      by (auto simp: settleAll_snoc settleStep_cache update_conv')
  next
    case False
    then have "file \<in> set xs" using snoc.prems(1) by auto
    moreover have "\<forall>g \<in> set xs. path g = path file \<longrightarrow> g = file"
      using snoc.prems(2) by simp
    ultimately obtain p where
      "map_of (cache (settleAll e existingData xs s)) (path file)
         = Some (entryWritten e existingData file p)"
      using snoc.IH by blast
    then show ?thesis
      using False by (auto simp: settleAll_snoc settleStep_cache update_conv')
  qed
qed

lemma cache_scheduleSave: "cache (scheduleSave s) = cache s"
  by (simp add: scheduleSave_def setTimeout_def clearTimeout_def Let_def split: option.splits)

lemma validFolders_eq:
  "filter (\<lambda>p. p \<noteq> [] \<and> trim p \<noteq> []) fs = validFoldersOf fs"
  unfolding validFoldersOf_def
  by (rule filter_cong) (auto simp: blank_def trim_empty)

lemma refreshAllMetadata_unfold:
  "refreshAllMetadata e folders s =
     (if validFoldersOf folders = [] then (Inr (), s)
      else (case countSkipped (loadExistingData e) (musicFilesIn e (validFoldersOf folders)) 0 of
              Inl err \<Rightarrow>
                (Inl err, settleAll e (loadExistingData e)
                            (musicFilesIn e (validFoldersOf folders)) (s\<lparr>isDirty := True\<rparr>))
            | Inr skippedCount \<Rightarrow>
                (Inr (), scheduleSave (settleAll e (loadExistingData e)
                            (musicFilesIn e (validFoldersOf folders)) (s\<lparr>isDirty := True\<rparr>)))))"
  unfolding refreshAllMetadata_def Let_def validFolders_eq by simp



lemma cache_refreshed:
  "validFoldersOf folders \<noteq> [] \<Longrightarrow>
   cache (refreshed e folders s)
     = cache (settleAll e (loadExistingData e) (musicFilesIn e (validFoldersOf folders))
                (s\<lparr>isDirty := True\<rparr>))"
  by (simp add: refreshed_def refreshAllMetadata_unfold cache_scheduleSave split: sum.splits)

lemma musicFiles_unique:
  "onlyFileAtItsPath e file \<Longrightarrow> \<forall>g \<in> set (musicFilesIn e fs). path g = path file \<longrightarrow> g = file"
  by (auto simp: onlyFileAtItsPath_def musicFilesIn_def list_all_iff)




lemma refreshed_entry:
  assumes "validFoldersOf folders \<noteq> []"
    and "file \<in> set (musicFilesIn e (validFoldersOf folders))"
    and "onlyFileAtItsPath e file"
  shows "\<exists>p. getMetadata (refreshed e folders s) (path file)
              = Some (entryWritten e (loadExistingData e) file p)"
  using settleAll_entry [OF assms(2) musicFiles_unique [OF assms(3)], of e "loadExistingData e" "s\<lparr>isDirty := True\<rparr>"]
  by (simp add: getMetadata_def cache_refreshed [OF assms(1)])

text \<open>
  Claim C5. During a full refresh a file with a stored record is re-extracted exactly
  when \<open>needsReExtraction\<close> holds of that record, that is, unless both title and artist are
  present and non-empty; no other field takes part in the decision. The record with an
  empty title, artist "A" and album "B" needs re-extraction, and after the next refresh
  the cache holds the outcome of an extraction for its file.
\<close>

theorem reuse_or_reextract:
  "(existingEntry existingData (path file) = Some r \<longrightarrow>
      processFileIfNeeded e file existingData s =
        (if needsReExtraction r
         then Inr (case extractFileMetadata e file (parser s) of
                     Inr (md, q) \<Rightarrow> s\<lparr>cache := AList.update (path file) md (cache s), parser := q\<rparr>
                   | Inl err \<Rightarrow>
                       s\<lparr>cache := AList.update (path file) (fileDefaultMetadata file) (cache s)\<rparr>)
         else Inr (s\<lparr>cache := AList.update (path file)
                               (reusedMetadata (the (stored_title r)) (the (stored_artist r)) r)
                               (cache s)\<rparr>)))
   \<and> needsReExtraction untitledRecord
   \<and> (validFoldersOf folders \<noteq> [] \<and> file \<in> set (musicFilesIn e (validFoldersOf folders))
        \<and> onlyFileAtItsPath e file
        \<and> existingEntry (loadExistingData e) (path file) = Some r \<and> needsReExtraction r \<longrightarrow>
        (\<exists>p. getMetadata (refreshed e folders s) (path file) = Some (extractionOutcome e file p)))"
proof (intro conjI impI)
  assume "existingEntry existingData (path file) = Some r"
  then show "processFileIfNeeded e file existingData s =
        (if needsReExtraction r
         then Inr (case extractFileMetadata e file (parser s) of
                     Inr (md, q) \<Rightarrow> s\<lparr>cache := AList.update (path file) md (cache s), parser := q\<rparr>
                   | Inl err \<Rightarrow>
                       s\<lparr>cache := AList.update (path file) (fileDefaultMetadata file) (cache s)\<rparr>)
         else Inr (s\<lparr>cache := AList.update (path file)
                               (reusedMetadata (the (stored_title r)) (the (stored_artist r)) r)
                               (cache s)\<rparr>))"
    by (cases existingData)
       (auto simp: processFileIfNeeded_def processFileTry_def extractAndStore_def
          needsReExtraction_iff
          dest: completeFields_Some split: option.splits sum.splits prod.splits)
next
  show "needsReExtraction untitledRecord"
    by (simp add: needsReExtraction_def untitledRecord_def)
next
  assume a: "validFoldersOf folders \<noteq> [] \<and> file \<in> set (musicFilesIn e (validFoldersOf folders))
        \<and> onlyFileAtItsPath e file
        \<and> existingEntry (loadExistingData e) (path file) = Some r \<and> needsReExtraction r"
  then obtain p where
    "getMetadata (refreshed e folders s) (path file) = Some (entryWritten e (loadExistingData e) file p)"
    using refreshed_entry [of folders "file" e s] by blast
  moreover have "entryWritten e (loadExistingData e) file p = extractionOutcome e file p"
    using a by (cases "loadExistingData e") (simp_all add: entryWritten_def)
  ultimately show "\<exists>p. getMetadata (refreshed e folders s) (path file) = Some (extractionOutcome e file p)"
    by auto
qed

theorem reuse_or_reextract_witness:
  "existingEntry (loadExistingData persistedEnv) (path songFile) = Some untitledRecord
   \<and> needsReExtraction untitledRecord
   \<and> validFoldersOf [''Music''] = [''Music'']
   \<and> songFile \<in> set (musicFilesIn persistedEnv [''Music''])
   \<and> onlyFileAtItsPath persistedEnv songFile
   \<and> processFileIfNeeded persistedEnv songFile (loadExistingData persistedEnv) freshState
       = Inr (freshState\<lparr>cache := [(''Music/song.mp3'',
                \<lparr>title = unknownTitle, artist = unknownArtist, album = unknownAlbum,
                 cover = None, lyrics = Some ''[00:01.00]sidecar words''\<rparr>)]\<rparr>)
   \<and> getMetadata (refreshed persistedEnv [''Music''] freshState) ''Music/song.mp3''
       = Some \<lparr>title = unknownTitle, artist = unknownArtist, album = unknownAlbum,
               cover = None, lyrics = Some ''[00:01.00]sidecar words''\<rparr>"
proof -
  have entry: "existingEntry (loadExistingData persistedEnv) (path songFile) = Some untitledRecord"
    by (simp add: model_defs example_defs)
  have need: "needsReExtraction untitledRecord"
    by (simp add: needsReExtraction_def untitledRecord_def)
  have extracted: "extractFileMetadata persistedEnv songFile (parser freshState)
      = Inr (\<lparr>title = unknownTitle, artist = unknownArtist, album = unknownAlbum,
               cover = None, lyrics = Some ''[00:01.00]sidecar words''\<rparr>, freshParser)"
    by (simp add: model_defs example_defs)
  have "processFileIfNeeded persistedEnv songFile (loadExistingData persistedEnv) freshState
       = Inr (freshState\<lparr>cache := [(''Music/song.mp3'',
                \<lparr>title = unknownTitle, artist = unknownArtist, album = unknownAlbum,
                 cover = None, lyrics = Some ''[00:01.00]sidecar words''\<rparr>)]\<rparr>)"
    using reuse_or_reextract [of "loadExistingData persistedEnv" songFile untitledRecord persistedEnv
        freshState "[''Music'']"] entry need extracted
    by (simp add: songFile_def freshState_def freshParser_def)
  moreover have "validFoldersOf [''Music''] = [''Music'']"
    by (simp add: validFoldersOf_def blank_def trim_def isWhiteSpace_def isWhiteSpace2_def
          isWhiteSpace3_def)
  moreover have "songFile \<in> set (musicFilesIn persistedEnv [''Music''])"
    by (simp add: model_defs example_defs)
  moreover have "onlyFileAtItsPath persistedEnv songFile"
    by (simp add: onlyFileAtItsPath_def example_defs)
  moreover have "getMetadata (refreshed persistedEnv [''Music''] freshState) ''Music/song.mp3''
       = Some \<lparr>title = unknownTitle, artist = unknownArtist, album = unknownAlbum,
               cover = None, lyrics = Some ''[00:01.00]sidecar words''\<rparr>"
    by (simp add: model_defs example_defs)
  ultimately show ?thesis using entry need by simp
qed

subsection \<open>Failures during a full refresh\<close>




text \<open>
  When the stored data file parses to \<open>null\<close>, every task of the batch fails on reading
  \<open>existingData.metadata\<close> and stores the placeholder with the file's base name without
  looking at the file, and the counting loop after the batch makes the refresh reject;
  no flush is scheduled.
\<close>

lemma refresh_rejects_on_null_data:
  "loadExistingData nullDataEnv = NullData
   \<and> fst (refreshAllMetadata nullDataEnv [''Music''] freshState) = Inl TypeError
   \<and> getMetadata (refreshed nullDataEnv [''Music''] freshState) ''Music/song.mp3''
       = Some \<lparr>title = ''song'', artist = unknownArtist, album = unknownAlbum,
               cover = None, lyrics = None\<rparr>
   \<and> saveTimeout (refreshed nullDataEnv [''Music''] freshState) = None"
  by (simp add: model_defs example_defs)

subsection \<open>Timers\<close>

lemma timersOk_frame:
  "pending s' = pending s \<Longrightarrow> nextId s' = nextId s \<Longrightarrow> saveTimeout s' = saveTimeout s \<Longrightarrow>
   timersOk s' = timersOk s"
  by (simp add: timersOk_def split: option.splits)

lemma timersOk_setTimeout:
  "timersOk s \<Longrightarrow> cb \<noteq> SaveCallback \<Longrightarrow> timersOk (snd (setTimeout cb delay s))"
  by (auto simp: timersOk_def setTimeout_def list_all_iff split: option.splits)

lemma timersOk_clearTimeout: "timersOk s \<Longrightarrow> timersOk (clearTimeout h s)"
  by (auto simp: timersOk_def clearTimeout_def list_all_iff distinct_map_filter split: option.splits)

lemma no_flush_after_clear:
  "timersOk s \<Longrightarrow> saveTimeout s = Some h \<Longrightarrow> flushesPending (clearTimeout h s) = []"
  by (auto simp: timersOk_def clearTimeout_def flushesPending_def list_all_iff filter_empty_conv)

lemma no_flush_without_handle:
  "timersOk s \<Longrightarrow> saveTimeout s = None \<Longrightarrow> flushesPending s = []"
  by (auto simp: timersOk_def flushesPending_def list_all_iff filter_empty_conv)

lemma scheduleSave_pending:
  "pending (scheduleSave s) =
     (case saveTimeout s of Some h \<Rightarrow> filter (\<lambda>t. task_id t \<noteq> h) (pending s) | None \<Rightarrow> pending s)
     @ [\<lparr>task_id = nextId s, due = clock s + 500, run = SaveCallback\<rparr>]"
  by (simp add: scheduleSave_def setTimeout_def clearTimeout_def Let_def split: option.splits)

lemma scheduleSave_fields:
  "saveTimeout (scheduleSave s) = Some (nextId s)" "nextId (scheduleSave s) = Suc (nextId s)"
  "clock (scheduleSave s) = clock s" "saveRequests (scheduleSave s) = saveRequests s"
  "isDirty (scheduleSave s) = isDirty s" "onSaveNeeded (scheduleSave s) = onSaveNeeded s"
  "parser (scheduleSave s) = parser s"
  by (simp_all add: scheduleSave_def setTimeout_def clearTimeout_def Let_def split: option.splits)

lemma scheduleSave_flush:
  assumes "timersOk s"
  shows "flushesPending (scheduleSave s) = [\<lparr>task_id = nextId s, due = clock s + 500, run = SaveCallback\<rparr>]"
proof (cases "saveTimeout s")
  case None
  then show ?thesis
    using no_flush_without_handle [OF assms]
    by (simp add: scheduleSave_pending flushesPending_def)
next
  case (Some h)
  then show ?thesis
    using no_flush_after_clear [OF assms Some]
    by (simp add: scheduleSave_pending flushesPending_def clearTimeout_def)
qed

lemma scheduleSave_others:
  "timersOk s \<Longrightarrow> othersPending (scheduleSave s) = othersPending s"
  by (auto simp: scheduleSave_pending othersPending_def timersOk_def list_all_iff
        split: option.splits intro!: filter_cong)

lemma timersOk_scheduleSave: "timersOk s \<Longrightarrow> timersOk (scheduleSave s)"
  unfolding timersOk_def scheduleSave_pending scheduleSave_fields
  by (cases "saveTimeout s") (auto simp: list_all_iff distinct_map_filter)

lemma timersOk_saveCallback: "timersOk (saveCallback s) = timersOk s"
  by (rule timersOk_frame) (simp_all add: saveCallback_def Let_def)

lemma timersOk_settleCallback: "timersOk s \<Longrightarrow> timersOk (settleCallback e filePath s)"
  by (auto simp: settleCallback_def timersOk_setTimeout split: option.splits TAbstractFile.splits)

lemma timersOk_extractionDone: "timersOk s \<Longrightarrow> timersOk (extractionDone e filePath tf s)"
proof -
  assume ok: "timersOk s"
  have "timersOk (s\<lparr>cache := c, parser := p\<rparr>)" for c p
    using ok by (simp add: timersOk_def split: option.splits)
  then show ?thesis
    using ok by (auto simp: extractionDone_def timersOk_scheduleSave split: sum.splits)
qed

lemma timersOk_fire: "timersOk s \<Longrightarrow> timersOk (fire e t s)"
proof -
  assume ok: "timersOk s"
  have "timersOk (s\<lparr>pending := filter (\<lambda>u. task_id u \<noteq> task_id t) (pending s),
                     clock := max (clock s) (due t)\<rparr>)"
    using ok by (auto simp: timersOk_def list_all_iff distinct_map_filter split: option.splits)
  then show ?thesis
    by (cases "run t")
       (simp_all add: fire_def runCallback_def timersOk_saveCallback timersOk_settleCallback
          timersOk_extractionDone)
qed

lemma timersOk_runUntil: "timersOk s \<Longrightarrow> timersOk (runUntil e T s)"
proof (induction e T s rule: runUntil.induct)
  case (1 e T s)
  show ?case
  proof (cases "earliest (pending s)")
    case None
    then show ?thesis
      using "1.prems" by (simp add: runUntil.simps [of e T s] timersOk_def split: option.splits)
  next
    case (Some t)
    show ?thesis
    proof (cases "due t \<le> T")
      case True
      then show ?thesis
        using Some "1.IH" [OF Some True] "1.prems"
        by (simp add: runUntil.simps [of e T s] timersOk_fire)
    next
      case False
      then show ?thesis
        using Some "1.prems" by (simp add: runUntil.simps [of e T s] timersOk_def split: option.splits)
    qed
  qed
qed

lemma timersOk_handleFileChange: "timersOk s \<Longrightarrow> timersOk (handleFileChange e filePath type s)"
proof -
  assume ok: "timersOk s"
  have a: "timersOk (s\<lparr>isDirty := True\<rparr>)"
    using ok by (simp add: timersOk_def split: option.splits)
  have b: "timersOk (s\<lparr>isDirty := True, cache := c\<rparr>)" for c
    using ok by (simp add: timersOk_def split: option.splits)
  show ?thesis
    using ok a b
    by (cases type) (simp_all add: handleFileChange_def Let_def timersOk_setTimeout timersOk_scheduleSave)
qed

lemma processFileIfNeeded_frame:
  "\<exists>c p. processFileIfNeeded e file existingData s = Inr (s\<lparr>cache := c, parser := p\<rparr>)"
proof -
  have keep: "s\<lparr>cache := c\<rparr> = s\<lparr>cache := c, parser := parser s\<rparr>" for c by simp
  show ?thesis
    unfolding processFileIfNeeded_def processFileTry_def extractAndStore_def
    by (auto split: option.splits sum.splits prod.splits intro: keep)
qed

lemma settleAll_frame: "\<exists>c p. settleAll e existingData files s = s\<lparr>cache := c, parser := p\<rparr>"
proof (induction files rule: rev_induct)
  case Nil
  have "s = s\<lparr>cache := cache s, parser := parser s\<rparr>" by simp
  then show ?case unfolding settleAll_def fold_simps by blast
next
  case (snoc x xs)
  then obtain c p where st: "settleAll e existingData xs s = s\<lparr>cache := c, parser := p\<rparr>" by blast
  obtain c' p' where "processFileIfNeeded e x existingData (s\<lparr>cache := c, parser := p\<rparr>)
      = Inr (s\<lparr>cache := c, parser := p\<rparr>\<lparr>cache := c', parser := p'\<rparr>)"
    using processFileIfNeeded_frame by blast
  then show ?case
    by (auto simp: settleAll_snoc settleStep_def st)
qed

lemma timersOk_refreshed: "timersOk s \<Longrightarrow> timersOk (refreshed e folders s)"
proof -
  assume ok: "timersOk s"
  obtain c p where "settleAll e (loadExistingData e) (musicFilesIn e (validFoldersOf folders))
      (s\<lparr>isDirty := True\<rparr>) = s\<lparr>isDirty := True\<rparr>\<lparr>cache := c, parser := p\<rparr>"
    using settleAll_frame by blast
  moreover have "timersOk (s\<lparr>isDirty := True\<rparr>\<lparr>cache := c, parser := p\<rparr>)"
    using ok by (simp add: timersOk_def split: option.splits)
  ultimately show ?thesis
    using ok
    by (cases "countSkipped (loadExistingData e) (musicFilesIn e (validFoldersOf folders)) 0")
       (simp_all add: refreshed_def refreshAllMetadata_unfold timersOk_scheduleSave)
qed

lemma restore_fold_timers:
  "pending (fold (\<lambda>(p, m) st. st\<lparr>cache := AList.update p (restoreEntry m) (cache st),
                                   processedTracks := Suc (processedTracks st)\<rparr>) entries st) = pending st
   \<and> nextId (fold (\<lambda>(p, m) st. st\<lparr>cache := AList.update p (restoreEntry m) (cache st),
                                   processedTracks := Suc (processedTracks st)\<rparr>) entries st) = nextId st
   \<and> saveTimeout (fold (\<lambda>(p, m) st. st\<lparr>cache := AList.update p (restoreEntry m) (cache st),
                                   processedTracks := Suc (processedTracks st)\<rparr>) entries st) = saveTimeout st"
  by (induction entries arbitrary: st) (simp_all add: case_prod_beta)

lemma timersOk_initializeFromSettings: "timersOk (initializeFromSettings settings s) = timersOk s"
  by (rule timersOk_frame)
     (simp_all add: initializeFromSettings_def Let_def restore_fold_timers split: option.splits)

lemma timersOk_cleanup: "timersOk s \<Longrightarrow> timersOk (cleanup s)"
proof -
  assume ok: "timersOk s"
  have "timersOk (x\<lparr>parser := p, cache := c\<rparr>) = timersOk x" for x p c
    by (rule timersOk_frame) simp_all
  then show ?thesis
    using ok by (simp add: cleanup_def Let_def timersOk_clearTimeout split: option.splits)
qed

lemma reachable_timersOk: "reachable e s \<Longrightarrow> timersOk s"
proof (induction rule: reachable.induct)
  case (start s)
  then show ?case by (simp add: timersOk_def)
next
  case (callback s)
  then show ?case by (simp add: setSaveCallback_def timersOk_def split: option.splits)
qed (simp_all add: timersOk_handleFileChange timersOk_runUntil timersOk_refreshed
       timersOk_initializeFromSettings timersOk_cleanup)

lemma at_most_one_with_key:
  "distinct (map f xs) \<Longrightarrow> length (filter (\<lambda>x. f x = a) xs) \<le> Suc 0"
proof (induction xs)
  case Nil
  then show ?case by simp
next
  case (Cons x xs)
  show ?case
  proof (cases "f x = a")
    case True
    have "f x \<notin> f ` set xs" using Cons.prems by simp
    then have "\<forall>y \<in> set xs. f y \<noteq> a" using True by (metis imageI)
    then have "filter (\<lambda>y. f y = a) xs = []"
      by (simp add: filter_empty_conv)
    then show ?thesis using True by simp
  next
    case False
    then show ?thesis using Cons by simp
  qed
qed

lemma timersOk_one_flush: "timersOk s \<Longrightarrow> length (flushesPending s) \<le> 1"
proof (cases "saveTimeout s")
  case None
  assume "timersOk s"
  then show ?thesis using None no_flush_without_handle by simp
next
  case (Some h)
  assume ok: "timersOk s"
  then have "flushesPending s = filter (\<lambda>t. task_id t = h) (pending s)"
    using Some by (auto simp: flushesPending_def timersOk_def list_all_iff intro!: filter_cong)
  then show ?thesis
    using ok at_most_one_with_key [of task_id "pending s" h] by (simp add: timersOk_def)
qed

subsection \<open>Delete events\<close>

lemma split_by_kind:
  "flushesPending s = [x] \<Longrightarrow> othersPending s = [] \<Longrightarrow> pending s = [x]"
proof -
  assume f: "flushesPending s = [x]" and o: "othersPending s = []"
  have "\<forall>t \<in> set (pending s). run t = SaveCallback"
    using o by (auto simp: othersPending_def filter_empty_conv)
  then have "filter (\<lambda>t. run t = SaveCallback) (pending s) = pending s"
    by (simp add: filter_id_conv)
  then show ?thesis using f by (simp add: flushesPending_def)
qed

lemma runUntil_single_flush:
  assumes "pending s = [\<lparr>task_id = h, due = d, run = SaveCallback\<rparr>]" and "onSaveNeeded s"
    and "clock s \<le> d"
  shows "saveRequests (runUntil e T s) = (if d \<le> T then saveRequests s @ [d] else saveRequests s)"
proof (cases "d \<le> T")
  case False
  then show ?thesis using assms by (simp add: runUntil.simps [of e T s])
next
  case True
  let ?s1 = "fire e \<lparr>task_id = h, due = d, run = SaveCallback\<rparr> s"
  have p1: "pending ?s1 = []" and r1: "saveRequests ?s1 = saveRequests s @ [d]"
    using assms by (simp_all add: fire_def runCallback_def saveCallback_def Let_def max_def)
  have "runUntil e T s = runUntil e T ?s1"
    using assms True by (simp add: runUntil.simps [of e T s])
  also have "saveRequests (runUntil e T ?s1) = saveRequests ?s1"
    using p1 by (simp add: runUntil.simps [of e T ?s1])
  finally show ?thesis using r1 True by simp
qed

text \<open>
  Claim C1, as amended. For every path whose file name passes the supported-audio filter,
  \<open>handleFileChange\<close> with \<open>delete\<close> removes the record of that path before it returns,
  leaves every other record alone, sets the dirty flag and replaces the queued flush timer
  by one that is due 500 ms later. No save notification is issued by the call itself: with
  nothing else queued, it is issued when those 500 ms have passed.
\<close>

theorem delete_event_removes_and_schedules:
  assumes "isSupportedAudioFile e (lastSegment filePath)" and "timersOk s"
  shows "map_of (getAllMetadata (handleFileChange e filePath Delete s)) filePath = None
     \<and> (\<forall>q. q \<noteq> filePath \<longrightarrow>
            getMetadata (handleFileChange e filePath Delete s) q = getMetadata s q)
     \<and> needsSave (handleFileChange e filePath Delete s)
     \<and> saveRequests (handleFileChange e filePath Delete s) = saveRequests s
     \<and> flushesPending (handleFileChange e filePath Delete s)
         = [\<lparr>task_id = nextId s, due = clock s + 500, run = SaveCallback\<rparr>]
     \<and> othersPending (handleFileChange e filePath Delete s) = othersPending s
     \<and> (othersPending s = [] \<and> onSaveNeeded s \<longrightarrow>
          saveRequests (runUntil e T (handleFileChange e filePath Delete s))
            = (if clock s + 500 \<le> T then saveRequests s @ [clock s + 500] else saveRequests s))"
proof -
  let ?s1 = "s\<lparr>isDirty := True, cache := AList.delete filePath (cache s)\<rparr>"
  have h: "handleFileChange e filePath Delete s = scheduleSave ?s1"
    using assms(1) by (simp add: handleFileChange_def Let_def)
  have ok1: "timersOk ?s1"
    using assms(2) by (simp add: timersOk_def split: option.splits)
  have gone: "map_of (getAllMetadata (scheduleSave ?s1)) filePath = None"
    by (simp add: getAllMetadata_def cache_scheduleSave delete_conv')
  have rest: "\<forall>q. q \<noteq> filePath \<longrightarrow> getMetadata (scheduleSave ?s1) q = getMetadata s q"
    by (simp add: getMetadata_def cache_scheduleSave delete_conv')
  have dirty: "needsSave (scheduleSave ?s1)"
    by (simp add: needsSave_def scheduleSave_fields)
  have quiet: "saveRequests (scheduleSave ?s1) = saveRequests s"
    by (simp add: scheduleSave_fields)
  have flush: "flushesPending (scheduleSave ?s1)
      = [\<lparr>task_id = nextId s, due = clock s + 500, run = SaveCallback\<rparr>]"
    using scheduleSave_flush [OF ok1] by simp
  have others: "othersPending (scheduleSave ?s1) = othersPending s"
    using scheduleSave_others [OF ok1] by (simp add: othersPending_def)
  have later: "saveRequests (runUntil e T (scheduleSave ?s1))
            = (if clock s + 500 \<le> T then saveRequests s @ [clock s + 500] else saveRequests s)"
    if "othersPending s = [] \<and> onSaveNeeded s"
  proof -
    have "pending (scheduleSave ?s1) = [\<lparr>task_id = nextId s, due = clock s + 500, run = SaveCallback\<rparr>]"
      using flush others that by (simp add: split_by_kind)
    then show ?thesis
      using runUntil_single_flush [of "scheduleSave ?s1" "nextId s" "clock s + 500" e T] that
      by (simp add: scheduleSave_fields)
  qed
  show ?thesis
    unfolding h using gone rest dirty quiet flush others later by blast
qed


lemmas loop_defs =
  handleFileChange_def lastSegment_def runUntil.simps fire_def runCallback_def saveCallback_def
  settleCallback_def extractionDone_def cleanup_def parser_cleanup_def getAllMetadata_def
  flushesPending_def othersPending_def timersOk_def

theorem delete_event_removes_and_schedules_witness:
  "isSupportedAudioFile vaultEnv (lastSegment ''Music/song.mp3'')
   \<and> timersOk cachedState
   \<and> othersPending cachedState = []
   \<and> onSaveNeeded cachedState
   \<and> map_of (getAllMetadata (handleFileChange vaultEnv ''Music/song.mp3'' Delete cachedState))
         ''Music/song.mp3'' = None
   \<and> flushesPending (handleFileChange vaultEnv ''Music/song.mp3'' Delete cachedState)
       = [\<lparr>task_id = 1, due = 500, run = SaveCallback\<rparr>]
   \<and> saveRequests (runUntil vaultEnv 500 (handleFileChange vaultEnv ''Music/song.mp3'' Delete cachedState))
       = [500]"
proof -
  have a: "isSupportedAudioFile vaultEnv (lastSegment ''Music/song.mp3'')"
    by (simp add: model_defs example_defs loop_defs)
  have b: "timersOk cachedState" "othersPending cachedState = []" "onSaveNeeded cachedState"
    "nextId cachedState = 1" "clock cachedState = 0" "saveRequests cachedState = []"
    by (simp_all add: timersOk_def othersPending_def cachedState_def freshState_def)
  show ?thesis
    using delete_event_removes_and_schedules [OF a b(1), of 500] a b
    by simp
qed

text \<open>
  The claim as stated fails in both of its parts. After the deletion of a cached audio
  file no notification has been issued when the call returns, nor 499 ms later; it comes
  with the debounce timer at 500 ms, and never if \<open>cleanup\<close> cancels that timer first. And
  a cached record whose path is no audio file is not removed at all.
\<close>

theorem delete_event_counterexample:
  "getMetadata cachedState ''Music/song.mp3'' = Some songRecord
   \<and> saveRequests (handleFileChange vaultEnv ''Music/song.mp3'' Delete cachedState) = []
   \<and> saveRequests (runUntil vaultEnv 499 (handleFileChange vaultEnv ''Music/song.mp3'' Delete cachedState)) = []
   \<and> saveRequests (runUntil vaultEnv 500 (handleFileChange vaultEnv ''Music/song.mp3'' Delete cachedState)) = [500]
   \<and> saveRequests (runUntil vaultEnv 5000
         (cleanup (handleFileChange vaultEnv ''Music/song.mp3'' Delete cachedState))) = []
   \<and> getMetadata cachedState ''Notes/memo.txt'' = Some songRecord
   \<and> getMetadata (handleFileChange vaultEnv ''Notes/memo.txt'' Delete cachedState) ''Notes/memo.txt''
       = Some songRecord"
  by (simp add: model_defs example_defs loop_defs)

subsection \<open>Bursts of modify events\<close>

lemma earliest_member: "earliest ts = Some t \<Longrightarrow> t \<in> set ts"
  by (induction ts arbitrary: t) (auto split: option.splits if_splits)

lemma earliest_least: "earliest ts = Some t \<Longrightarrow> u \<in> set ts \<Longrightarrow> due t \<le> due u"
proof (induction ts arbitrary: t)
  case Nil
  then show ?case by simp
next
  case (Cons x xs)
  show ?case
  proof (cases "earliest xs")
    case None
    then have "xs = []" by (cases xs) (auto split: option.splits if_splits)
    then show ?thesis using Cons.prems by simp
  next
    case (Some v)
    then show ?thesis
      using Cons.prems Cons.IH [OF Some] by (auto split: if_splits)
  qed
qed

lemma earliest_exists: "ts \<noteq> [] \<Longrightarrow> \<exists>t. earliest ts = Some t"
  by (cases ts) (auto split: option.splits)

lemma same_handle:
  "timersOk s \<Longrightarrow> u \<in> set (pending s) \<Longrightarrow> t \<in> set (pending s) \<Longrightarrow>
   task_id u = task_id t \<Longrightarrow> u = t"
  by (auto simp: timersOk_def distinct_map dest: inj_onD)

lemma extractFileMetadata_readable:
  "readable e tf \<Longrightarrow> \<exists>md q. extractFileMetadata e tf p = Inr (md, q)"
  by (auto simp: readable_def extractFileMetadata_def extractMetadata_def Let_def
        split: sum.splits prod.splits)

lemma fire_settle:
  "run t = SettleCallback fp \<Longrightarrow> vault_getAbstractFileByPath e fp = Some (File tf) \<Longrightarrow>
   fire e t s =
     s\<lparr>pending := filter (\<lambda>u. task_id u \<noteq> task_id t) (pending s)
                   @ [\<lparr>task_id = nextId s, due = max (clock s) (due t) + extractionTime e fp,
                       run = ExtractionDone fp tf\<rparr>],
       clock := max (clock s) (due t), nextId := Suc (nextId s)\<rparr>"
  by (simp add: fire_def runCallback_def settleCallback_def setTimeout_def)

lemma fire_done:
  "run t = ExtractionDone fp tf \<Longrightarrow> readable e tf \<Longrightarrow>
   \<exists>q. fire e t s =
     scheduleSave (s\<lparr>pending := filter (\<lambda>u. task_id u \<noteq> task_id t) (pending s),
                     clock := max (clock s) (due t),
                     cache := AList.update fp (extractionOutcome e tf (parser s)) (cache s),
                     parser := q\<rparr>)"
proof -
  assume r: "run t = ExtractionDone fp tf" and ok: "readable e tf"
  obtain md q where "extractFileMetadata e tf (parser s) = Inr (md, q)"
    using extractFileMetadata_readable [OF ok] by blast
  then show ?thesis
    using r by (auto simp: fire_def runCallback_def extractionDone_def extractionOutcome_def)
qed

lemma fire_save:
  "run t = SaveCallback \<Longrightarrow> onSaveNeeded s \<Longrightarrow>
   fire e t s =
     s\<lparr>pending := filter (\<lambda>u. task_id u \<noteq> task_id t) (pending s),
       clock := max (clock s) (due t), isDirty := False,
       saveRequests := saveRequests s @ [max (clock s) (due t)]\<rparr>"
  by (simp add: fire_def runCallback_def saveCallback_def Let_def)

lemma burstingD:
  assumes "bursting e A C [] s"
  shows "timersOk s" "onSaveNeeded s" "pending s \<noteq> []"
    "\<And>u. u \<in> set (pending s) \<Longrightarrow> taskInBurst e A C s u"
    "\<exists>u \<in> set (pending s). mark e u = C"
  using assms by (auto simp: bursting_def list_all_iff list_ex_iff)

lemma burstingI:
  assumes "timersOk s" "onSaveNeeded s" "pending s \<noteq> []"
    "\<And>u. u \<in> set (pending s) \<Longrightarrow> taskInBurst e A C s u"
    "\<exists>u \<in> set (pending s). mark e u = C"
  shows "bursting e A C [] s"
  using assms by (auto simp: bursting_def list_all_iff list_ex_iff)

lemma taskInBurst_later:
  "taskInBurst e A C s u \<Longrightarrow> clock s \<le> clock s' \<Longrightarrow> clock s' \<le> due u \<Longrightarrow>
   taskInBurst e A C s' u"
  by (auto simp: taskInBurst_def)

lemma bursting_fire_settle:
  assumes B: "bursting e A C [] s" and first: "earliest (pending s) = Some t"
    and r: "run t = SettleCallback fp"
  shows "bursting e A C [] (fire e t s) \<and> saveRequests (fire e t s) = saveRequests s
       \<and> (covered e p s \<longrightarrow> covered e p (fire e t s))"
proof -
  note D = burstingD [OF B]
  have tin: "t \<in> set (pending s)" by (rule earliest_member [OF first])
  have tb: "taskInBurst e A C s t" by (rule D(4) [OF tin])
  then have now: "clock s \<le> due t" and "fileReadable e fp"
    and lo: "A \<le> due t + extractionTime e fp" and hi: "due t + extractionTime e fp \<le> C"
    and win: "due t + extractionTime e fp < A + 500"
    using r by (auto simp: taskInBurst_def taskOk_def mark_def)
  then obtain tf where f: "vault_getAbstractFileByPath e fp = Some (File tf)" and rd: "readable e tf"
    by (auto simp: fileReadable_def split: option.splits TAbstractFile.splits)
  define new where "new = \<lparr>task_id = nextId s, due = due t + extractionTime e fp,
                            run = ExtractionDone fp tf\<rparr>"
  define rest where "rest = filter (\<lambda>u. task_id u \<noteq> task_id t) (pending s)"
  have shape: "fire e t s = s\<lparr>pending := rest @ [new], clock := due t, nextId := Suc (nextId s)\<rparr>"
    using fire_settle [OF r f, of s] now by (simp add: new_def rest_def max_def)
  have ok: "timersOk (fire e t s)" by (rule timersOk_fire [OF D(1)])
  have old: "taskInBurst e A C (fire e t s) u" if "u \<in> set rest" for u
  proof -
    have u: "u \<in> set (pending s)" using that by (simp add: rest_def)
    have a: "taskInBurst e A C s u" by (rule D(4) [OF u])
    have b: "clock s \<le> clock (fire e t s)" using now by (simp add: shape)
    have c: "clock (fire e t s) \<le> due u" using earliest_least [OF first u] by (simp add: shape)
    show ?thesis by (rule taskInBurst_later [OF a b c])
  qed
  have fresh: "taskInBurst e A C (fire e t s) new"
    using lo hi win rd f by (simp add: taskInBurst_def shape new_def taskOk_def mark_def)
  have top: "\<exists>u \<in> set (pending (fire e t s)). mark e u = C"
  proof -
    obtain w where w: "w \<in> set (pending s)" and m: "mark e w = C" using D(5) by blast
    show ?thesis
    proof (cases "w = t")
      case True
      then have "mark e new = C" using m r by (simp add: mark_def new_def)
      then show ?thesis by (auto simp: shape)
    next
      case False
      then have "task_id w \<noteq> task_id t" using same_handle [OF D(1) w tin] by blast
      then have "w \<in> set rest" using w by (simp add: rest_def)
      then show ?thesis using m by (auto simp: shape)
    qed
  qed
  have "bursting e A C [] (fire e t s)"
  proof (rule burstingI)
    show "timersOk (fire e t s)" by (rule ok)
    show "onSaveNeeded (fire e t s)" using D(2) by (simp add: shape)
    show "pending (fire e t s) \<noteq> []" by (simp add: shape)
    show "taskInBurst e A C (fire e t s) u" if "u \<in> set (pending (fire e t s))" for u
      using that old fresh by (auto simp: shape)
    show "\<exists>u \<in> set (pending (fire e t s)). mark e u = C" by (rule top)
  qed
  moreover have "covered e p (fire e t s)" if c: "covered e p s"
  proof (cases "list_ex (storesFor p) (pending s)")
    case False
    then show ?thesis using c by (simp add: covered_def shape getMetadata_def)
  next
    case True
    then obtain w where w: "w \<in> set (pending s)" and st: "storesFor p w"
      by (auto simp: list_ex_iff)
    show ?thesis
    proof (cases "w = t")
      case True
      then have "storesFor p new" using st r by (simp add: storesFor_def new_def)
      then show ?thesis by (simp add: covered_def shape)
    next
      case False
      then have "task_id w \<noteq> task_id t" using same_handle [OF D(1) w tin] by blast
      then have "w \<in> set rest" using w by (simp add: rest_def)
      then show ?thesis using st by (auto simp: covered_def shape list_ex_iff)
    qed
  qed
  ultimately show ?thesis by (simp add: shape)
qed

lemma pending_by_kind: "set (pending s) = set (flushesPending s) \<union> set (othersPending s)"
  by (auto simp: flushesPending_def othersPending_def)

lemma bursting_fire_done:
  assumes B: "bursting e A C [] s" and first: "earliest (pending s) = Some t"
    and r: "run t = ExtractionDone fp tf"
  shows "bursting e A C [] (fire e t s) \<and> saveRequests (fire e t s) = saveRequests s
       \<and> (covered e p s \<longrightarrow> covered e p (fire e t s))"
proof -
  note D = burstingD [OF B]
  have tin: "t \<in> set (pending s)" by (rule earliest_member [OF first])
  have tb: "taskInBurst e A C s t" by (rule D(4) [OF tin])
  then have now: "clock s \<le> due t" and rd: "readable e tf"
    and f: "vault_getAbstractFileByPath e fp = Some (File tf)"
    and lo: "A \<le> due t" and hi: "due t \<le> C"
    using r by (auto simp: taskInBurst_def taskOk_def mark_def)
  define rest where "rest = filter (\<lambda>u. task_id u \<noteq> task_id t) (pending s)"
  define md where "md = extractionOutcome e tf (parser s)"
  obtain q where fired: "fire e t s =
      scheduleSave (s\<lparr>pending := rest, clock := max (clock s) (due t),
                      cache := AList.update fp md (cache s), parser := q\<rparr>)"
    using fire_done [OF r rd, of s] unfolding rest_def md_def by blast
  define s0 where "s0 = s\<lparr>pending := rest, clock := due t,
                          cache := AList.update fp md (cache s), parser := q\<rparr>"
  have shape: "fire e t s = scheduleSave s0"
    using fired now by (simp add: s0_def max_def)
  have ok0: "timersOk s0"
    using D(1) by (auto simp: timersOk_def s0_def rest_def list_all_iff distinct_map_filter
        split: option.splits)
  define new where "new = \<lparr>task_id = nextId s, due = due t + 500, run = SaveCallback\<rparr>"
  have flush: "flushesPending (fire e t s) = [new]"
    using scheduleSave_flush [OF ok0] by (simp add: shape s0_def new_def)
  have others: "othersPending (fire e t s) = othersPending s0"
    using scheduleSave_others [OF ok0] by (simp add: shape)
  have clk: "clock (fire e t s) = due t"
    by (simp add: shape scheduleSave_fields s0_def)
  have old: "taskInBurst e A C (fire e t s) u" if "u \<in> set (othersPending s0)" for u
  proof -
    have u: "u \<in> set (pending s)" using that by (simp add: othersPending_def s0_def rest_def)
    have a: "taskInBurst e A C s u" by (rule D(4) [OF u])
    have b: "clock s \<le> clock (fire e t s)" using now by (simp add: clk)
    have c: "clock (fire e t s) \<le> due u" using earliest_least [OF first u] by (simp add: clk)
    show ?thesis by (rule taskInBurst_later [OF a b c])
  qed
  have fresh: "taskInBurst e A C (fire e t s) new"
    using lo hi by (simp add: taskInBurst_def clk new_def taskOk_def mark_def)
  have top: "\<exists>u \<in> set (pending (fire e t s)). mark e u = C"
  proof -
    obtain w where w: "w \<in> set (pending s)" and m: "mark e w = C" using D(5) by blast
    have mnew: "mark e new = due t" by (simp add: mark_def new_def)
    have newin: "new \<in> set (pending (fire e t s))" by (simp add: pending_by_kind flush)
    show ?thesis
    proof (cases "w = t")
      case True
      then have "mark e new = C" using m r mnew by (simp add: mark_def)
      then show ?thesis using newin by blast
    next
      case False
      then have other: "task_id w \<noteq> task_id t" using same_handle [OF D(1) w tin] by blast
      show ?thesis
      proof (cases "run w = SaveCallback")
        case True
        have "taskInBurst e A C s w" by (rule D(4) [OF w])
        then have "C + 500 \<le> due t + 500"
          using True m now by (auto simp: taskInBurst_def mark_def)
        then have "mark e new = C" using hi mnew by simp
        then show ?thesis using newin by blast
      next
        case False
        then have "w \<in> set (othersPending s0)"
          using w other by (simp add: othersPending_def s0_def rest_def)
        then have "w \<in> set (pending (fire e t s))" by (simp add: pending_by_kind others)
        then show ?thesis using m by blast
      qed
    qed
  qed
  have "bursting e A C [] (fire e t s)"
  proof (rule burstingI)
    show "timersOk (fire e t s)" by (rule timersOk_fire [OF D(1)])
    show "onSaveNeeded (fire e t s)" using D(2) by (simp add: shape scheduleSave_fields s0_def)
    show "pending (fire e t s) \<noteq> []"
      using flush by (auto simp: flushesPending_def)
    show "taskInBurst e A C (fire e t s) u" if "u \<in> set (pending (fire e t s))" for u
      using that old fresh by (auto simp: pending_by_kind flush others)
    show "\<exists>u \<in> set (pending (fire e t s)). mark e u = C" by (rule top)
  qed
  moreover have "covered e p (fire e t s)" if c: "covered e p s"
  proof (cases "fp = p")
    case True
    have "getMetadata (fire e t s) p = Some (extractionOutcome e tf (parser s))"
      using True by (simp add: getMetadata_def shape cache_scheduleSave s0_def update_conv' md_def)
    then show ?thesis using f True by (auto simp: covered_def)
  next
    case False
    have same: "getMetadata (fire e t s) p = getMetadata s p"
      using False by (simp add: getMetadata_def shape cache_scheduleSave s0_def update_conv')
    show ?thesis
    proof (cases "list_ex (storesFor p) (pending s)")
      case False
      then show ?thesis using c same by (simp add: covered_def)
    next
      case True
      then obtain w where w: "w \<in> set (pending s)" and st: "storesFor p w"
        by (auto simp: list_ex_iff)
      have "w \<noteq> t" using st r False by (auto simp: storesFor_def)
      then have "task_id w \<noteq> task_id t" using same_handle [OF D(1) w tin] by blast
      moreover have "run w \<noteq> SaveCallback" using st by (auto simp: storesFor_def)
      ultimately have "w \<in> set (othersPending s0)"
        using w by (simp add: othersPending_def s0_def rest_def)
      then have "w \<in> set (pending (fire e t s))" by (simp add: pending_by_kind others)
      then show ?thesis using st by (auto simp: covered_def list_ex_iff)
    qed
  qed
  ultimately show ?thesis by (simp add: shape scheduleSave_fields s0_def)
qed

lemma bursting_save_alone:
  assumes B: "bursting e A C [] s" and first: "earliest (pending s) = Some t"
    and r: "run t = SaveCallback"
  shows "pending s = [t] \<and> due t = C + 500 \<and> clock s \<le> due t"
proof -
  note D = burstingD [OF B]
  have tin: "t \<in> set (pending s)" by (rule earliest_member [OF first])
  have tb: "taskInBurst e A C s t" by (rule D(4) [OF tin])
  then have late: "A + 500 \<le> due t" and now: "clock s \<le> due t"
    using r by (auto simp: taskInBurst_def)
  have all_flush: "run u = SaveCallback" if u: "u \<in> set (pending s)" for u
  proof (rule ccontr)
    assume n: "run u \<noteq> SaveCallback"
    have "taskInBurst e A C s u" by (rule D(4) [OF u])
    then have "due u < A + 500"
      using n by (cases "run u") (auto simp: taskInBurst_def mark_def)
    then show False using earliest_least [OF first u] late by simp
  qed
  then have "flushesPending s = pending s"
    by (simp add: flushesPending_def filter_id_conv)
  then have "length (pending s) \<le> 1" using timersOk_one_flush [OF D(1)] by simp
  then have one: "pending s = [t]" using tin by (cases "pending s") auto
  then have "mark e t = C" using D(5) by simp
  then have "due t = C + 500" using r late by (simp add: mark_def)
  then show ?thesis using one now by simp
qed

lemma due_in_burst:
  "taskInBurst e A C s u \<Longrightarrow> due u \<le> C + 500"
  by (cases "run u") (auto simp: taskInBurst_def mark_def)

lemma runUntil_nothing_pending:
  "pending s = [] \<Longrightarrow> runUntil e T s = s\<lparr>clock := max (clock s) T\<rparr>"
  by (simp add: runUntil.simps [of e T s])

lemma burst_runs_out:
  "bursting e A C [] s \<Longrightarrow> C + 500 \<le> T \<Longrightarrow>
   saveRequests (runUntil e T s) = saveRequests s @ [C + 500]
   \<and> pending (runUntil e T s) = []
   \<and> \<not> isDirty (runUntil e T s)
   \<and> (covered e p s \<longrightarrow> covered e p (runUntil e T s))"
proof (induction e T s rule: runUntil.induct)
  case (1 e T s)
  note B = "1.prems"(1)
  note D = burstingD [OF B]
  obtain t where first: "earliest (pending s) = Some t"
    using earliest_exists [OF D(3)] by blast
  have tin: "t \<in> set (pending s)" by (rule earliest_member [OF first])
  have "due t \<le> C + 500" by (rule due_in_burst [OF D(4) [OF tin]])
  then have soon: "due t \<le> T" using "1.prems"(2) by simp
  have step: "runUntil e T s = runUntil e T (fire e t s)"
    using first soon by (simp add: runUntil.simps [of e T s])
  show ?case
  proof (cases "run t")
    case SaveCallback
    have alone: "pending s = [t]" and at: "due t = C + 500" and now: "clock s \<le> due t"
      using bursting_save_alone [OF B first SaveCallback] by simp_all
    have fired: "fire e t s = s\<lparr>pending := [], clock := C + 500, isDirty := False,
                                saveRequests := saveRequests s @ [C + 500]\<rparr>"
      using fire_save [OF SaveCallback D(2), of e] alone at now by (simp add: max_def)
    have "runUntil e T (fire e t s) = (fire e t s)\<lparr>clock := max (clock (fire e t s)) T\<rparr>"
      by (rule runUntil_nothing_pending) (simp add: fired)
    then have final: "runUntil e T s = s\<lparr>pending := [], clock := max (C + 500) T, isDirty := False,
                                saveRequests := saveRequests s @ [C + 500]\<rparr>"
      using step by (simp add: fired)
    have "covered e p (runUntil e T s)" if c: "covered e p s"
    proof -
      have "\<not> list_ex (storesFor p) (pending s)"
        using alone SaveCallback by (simp add: storesFor_def)
      then show ?thesis using c by (simp add: covered_def final getMetadata_def)
    qed
    then show ?thesis by (simp add: final)
  next
    case (SettleCallback fp)
    have next_state: "bursting e A C [] (fire e t s)" "saveRequests (fire e t s) = saveRequests s"
      "covered e p s \<longrightarrow> covered e p (fire e t s)"
      using bursting_fire_settle [OF B first SettleCallback, of p] by simp_all
    show ?thesis
      using "1.IH" [OF first soon next_state(1) "1.prems"(2)] next_state(2,3)
      by (simp add: step)
  next
    case (ExtractionDone fp tf)
    have next_state: "bursting e A C [] (fire e t s)" "saveRequests (fire e t s) = saveRequests s"
      "covered e p s \<longrightarrow> covered e p (fire e t s)"
      using bursting_fire_done [OF B first ExtractionDone, of p] by simp_all
    show ?thesis
      using "1.IH" [OF first soon next_state(1) "1.prems"(2)] next_state(2,3)
      by (simp add: step)
  qed
qed

lemma runUntil_idle:
  "\<forall>u \<in> set (pending s). T < due u \<Longrightarrow> runUntil e T s = s\<lparr>clock := max (clock s) T\<rparr>"
proof (cases "earliest (pending s)")
  case None
  then show ?thesis by (simp add: runUntil.simps [of e T s])
next
  case (Some t)
  assume "\<forall>u \<in> set (pending s). T < due u"
  then have "T < due t" using earliest_member [OF Some] by blast
  then show ?thesis using Some by (simp add: runUntil.simps [of e T s])
qed

lemma bursting_eventsD:
  assumes "bursting e A C events s"
  shows "timersOk s" "onSaveNeeded s"
    "\<And>u. u \<in> set (pending s) \<Longrightarrow> taskInBurst e A C s u"
    "\<And>ev. ev \<in> set events \<Longrightarrow> eventInBurst e A C s ev"
    "(\<exists>u \<in> set (pending s). mark e u = C) \<or> (\<exists>ev \<in> set events. completionOf e ev = C)"
    "pending s \<noteq> [] \<or> events \<noteq> []"
  using assms by (auto simp: bursting_def list_all_iff list_ex_iff)

lemma bursting_eventsI:
  assumes "timersOk s" "onSaveNeeded s"
    "\<And>u. u \<in> set (pending s) \<Longrightarrow> taskInBurst e A C s u"
    "\<And>ev. ev \<in> set events \<Longrightarrow> eventInBurst e A C s ev"
    "(\<exists>u \<in> set (pending s). mark e u = C) \<or> (\<exists>ev \<in> set events. completionOf e ev = C)"
    "pending s \<noteq> [] \<or> events \<noteq> []"
  shows "bursting e A C events s"
  using assms by (auto simp: bursting_def list_all_iff list_ex_iff)

lemma bursting_deliver_one:
  assumes B: "bursting e A C ((t, fp) # events) s"
    and later: "\<forall>ev \<in> set events. t \<le> fst ev \<and> fst ev < t + 500"
  shows "bursting e A C events (handleFileChange e fp Modify (runUntil e t s))
       \<and> saveRequests (handleFileChange e fp Modify (runUntil e t s)) = saveRequests s
       \<and> (covered e p s \<or> p = fp \<longrightarrow> covered e p (handleFileChange e fp Modify (runUntil e t s)))"
proof -
  note D = bursting_eventsD [OF B]
  have ev: "eventInBurst e A C s (t, fp)" by (rule D(4)) simp
  then have now: "clock s \<le> t" and sup: "isSupportedAudioFile e (lastSegment fp)"
    and rd: "fileReadable e fp"
    and lo: "A \<le> t + 500 + extractionTime e fp" and hi: "t + 500 + extractionTime e fp \<le> C"
    and win: "t + 500 + extractionTime e fp < A + 500"
    and wait: "\<forall>u \<in> set (pending s). t < due u"
    by (auto simp: eventInBurst_def extractable_def completionOf_def list_all_iff)
  define new where "new = \<lparr>task_id = nextId s, due = t + 500, run = SettleCallback fp\<rparr>"
  define s' where "s' = handleFileChange e fp Modify (runUntil e t s)"
  have idle: "runUntil e t s = s\<lparr>clock := t\<rparr>"
    using runUntil_idle [OF wait, of e] now by (simp add: max_def)
  have shape: "s' = s\<lparr>clock := t, isDirty := True, pending := pending s @ [new],
                     nextId := Suc (nextId s)\<rparr>"
    using sup by (simp add: s'_def idle handleFileChange_def Let_def setTimeout_def new_def)
  have ok: "timersOk s'"
    unfolding s'_def by (intro timersOk_handleFileChange timersOk_runUntil D(1))
  have old: "taskInBurst e A C s' u" if u: "u \<in> set (pending s)" for u
  proof -
    have a: "taskInBurst e A C s u" by (rule D(3) [OF u])
    have b: "clock s \<le> clock s'" using now by (simp add: shape)
    have c: "clock s' \<le> due u" using wait u by (auto simp: shape)
    show ?thesis by (rule taskInBurst_later [OF a b c])
  qed
  have fresh: "taskInBurst e A C s' new"
    using lo hi win rd by (simp add: taskInBurst_def shape new_def taskOk_def mark_def)
  have rest: "eventInBurst e A C s' x" if x: "x \<in> set events" for x
  proof -
    have "eventInBurst e A C s x" by (rule D(4)) (simp add: x)
    then show ?thesis
      using later x by (auto simp: eventInBurst_def shape new_def list_all_iff)
  qed
  have top: "(\<exists>u \<in> set (pending s'). mark e u = C) \<or> (\<exists>x \<in> set events. completionOf e x = C)"
  proof -
    have "mark e new = completionOf e (t, fp)" by (simp add: mark_def new_def completionOf_def)
    then show ?thesis using D(5) by (auto simp: shape)
  qed
  have "bursting e A C events s'"
  proof (rule bursting_eventsI)
    show "timersOk s'" by (rule ok)
    show "onSaveNeeded s'" using D(2) by (simp add: shape)
    show "taskInBurst e A C s' u" if "u \<in> set (pending s')" for u
      using that old fresh by (auto simp: shape)
    show "eventInBurst e A C s' x" if "x \<in> set events" for x by (rule rest [OF that])
    show "(\<exists>u \<in> set (pending s'). mark e u = C) \<or> (\<exists>x \<in> set events. completionOf e x = C)"
      by (rule top)
    show "pending s' \<noteq> [] \<or> events \<noteq> []" by (simp add: shape)
  qed
  moreover have "covered e p s'" if "covered e p s \<or> p = fp"
    using that by (auto simp: covered_def shape getMetadata_def storesFor_def new_def list_ex_iff)
  ultimately show ?thesis by (simp add: s'_def [symmetric]) (simp add: shape)
qed

lemma bursting_deliver:
  "bursting e A C events s \<Longrightarrow> sorted (map fst events) \<Longrightarrow> withinWindow (map fst events) \<Longrightarrow>
   bursting e A C [] (deliver e (modifyEvents events) s)
   \<and> saveRequests (deliver e (modifyEvents events) s) = saveRequests s
   \<and> (covered e p s \<or> p \<in> snd ` set events \<longrightarrow> covered e p (deliver e (modifyEvents events) s))"
proof (induction events arbitrary: s)
  case Nil
  then show ?case by (simp add: modifyEvents_def)
next
  case (Cons x xs)
  obtain t fp where x: "x = (t, fp)" by (cases x)
  have later: "\<forall>ev \<in> set xs. t \<le> fst ev \<and> fst ev < t + 500"
    using Cons.prems(2,3) x by (auto simp: withinWindow_def list_all_iff)
  let ?s = "handleFileChange e fp Modify (runUntil e t s)"
  have one: "bursting e A C xs ?s" "saveRequests ?s = saveRequests s"
    "covered e p s \<or> p = fp \<longrightarrow> covered e p ?s"
    using bursting_deliver_one [OF Cons.prems(1) [unfolded x] later, of p] by simp_all
  have "sorted (map fst xs)" "withinWindow (map fst xs)"
    using Cons.prems(2,3) by (auto simp: withinWindow_def list_all_iff)
  then have "bursting e A C [] (deliver e (modifyEvents xs) ?s)
     \<and> saveRequests (deliver e (modifyEvents xs) ?s) = saveRequests ?s
     \<and> (covered e p ?s \<or> p \<in> snd ` set xs \<longrightarrow> covered e p (deliver e (modifyEvents xs) ?s))"
    using Cons.IH [OF one(1)] by simp
  moreover have "deliver e (modifyEvents (x # xs)) s = deliver e (modifyEvents xs) ?s"
    by (simp add: modifyEvents_def x)
  ultimately show ?case using one(2,3) x by auto
qed

lemma latest_Max: "latest ts = Max (insert 0 (set ts))"
  using Max.set_eq_fold [of 0 ts] by (simp add: latest_def)

lemma latest_upper: "x \<in> set ts \<Longrightarrow> x \<le> latest ts"
  by (simp add: latest_Max)

lemma latest_attained: "ts \<noteq> [] \<Longrightarrow> latest ts \<in> set ts"
proof -
  assume ne: "ts \<noteq> []"
  have "latest ts \<in> insert 0 (set ts)"
    unfolding latest_Max by (rule Max_in) simp_all
  moreover have "0 \<in> set ts" if "latest ts = 0"
  proof -
    obtain x where x: "x \<in> set ts" using ne by (cases ts) auto
    then have "x \<le> 0" using latest_upper [OF x] that by simp
    then show ?thesis using x by simp
  qed
  ultimately show ?thesis by auto
qed

lemma burst_start:
  assumes ne: "events \<noteq> []"
    and early: "list_all (\<lambda>ev. clock s \<le> fst ev) events"
    and win: "withinWindow (map (completionOf e) events)"
    and ext: "list_all (\<lambda>ev. extractable e (snd ev)) events"
    and idle: "pending s = []" and ok: "timersOk s" and cb: "onSaveNeeded s"
  shows "bursting e (Min (set (map (completionOf e) events))) (latest (map (completionOf e) events))
           events s"
proof -
  let ?cs = "map (completionOf e) events"
  have cne: "?cs \<noteq> []" using ne by simp
  have min_in: "Min (set ?cs) \<in> set ?cs" by (rule Min_in) (use cne in simp_all)
  have each: "eventInBurst e (Min (set ?cs)) (latest ?cs) s ev" if ev: "ev \<in> set events" for ev
  proof -
    have c: "completionOf e ev \<in> set ?cs" using ev by simp
    have "Min (set ?cs) \<le> completionOf e ev" by (rule Min_le) (use c in simp_all)
    moreover have "completionOf e ev \<le> latest ?cs" by (rule latest_upper [OF c])
    moreover have "completionOf e ev < Min (set ?cs) + 500"
      using win c min_in by (auto simp: withinWindow_def list_all_iff)
    ultimately show ?thesis
      using early ext ev idle by (simp add: eventInBurst_def list_all_iff)
  qed
  have "latest ?cs \<in> set ?cs" by (rule latest_attained [OF cne])
  then have top: "\<exists>ev \<in> set events. completionOf e ev = latest ?cs" by auto
  show ?thesis
    by (rule bursting_eventsI) (use ok cb idle each top ne in simp_all)
qed

text \<open>
  Claim C8, as amended. Every call of \<open>scheduleSave\<close> leaves exactly one flush timer
  queued, due 500 ms after the call, and in every state the manager can reach at most one
  flush timer is queued. When one or more modify events arrive less than 500 ms apart at
  an idle manager that has a save callback, each for a supported audio file that exists
  and can be read once its settle delay has passed, and their extractions complete less
  than 500 ms apart, then exactly one save notification is issued, 500 ms after the last
  extraction has completed; by then the cache holds an extracted record for every path of
  the burst, nothing is queued any more and the dirty flag is cleared.
\<close>

theorem debounced_flush:
  "(timersOk s \<longrightarrow>
      flushesPending (scheduleSave s) = [\<lparr>task_id = nextId s, due = clock s + 500, run = SaveCallback\<rparr>])
   \<and> (reachable e s \<longrightarrow> length (flushesPending s) \<le> 1)
   \<and> (events \<noteq> [] \<and> sorted (map fst events) \<and> list_all (\<lambda>ev. clock s \<le> fst ev) events
        \<and> withinWindow (map fst events) \<and> withinWindow (map (completionOf e) events)
        \<and> list_all (\<lambda>ev. extractable e (snd ev)) events
        \<and> pending s = [] \<and> timersOk s \<and> onSaveNeeded s
        \<and> latest (map (completionOf e) events) + 500 \<le> T \<longrightarrow>
        saveRequests (runUntil e T (deliver e (modifyEvents events) s))
          = saveRequests s @ [latest (map (completionOf e) events) + 500]
        \<and> pending (runUntil e T (deliver e (modifyEvents events) s)) = []
        \<and> \<not> needsSave (runUntil e T (deliver e (modifyEvents events) s))
        \<and> (\<forall>ev \<in> set events. \<exists>file p.
              vault_getAbstractFileByPath e (snd ev) = Some (File file)
              \<and> getMetadata (runUntil e T (deliver e (modifyEvents events) s)) (snd ev)
                  = Some (extractionOutcome e file p)))"
proof (intro conjI impI)
  assume "timersOk s"
  then show "flushesPending (scheduleSave s)
      = [\<lparr>task_id = nextId s, due = clock s + 500, run = SaveCallback\<rparr>]"
    by (rule scheduleSave_flush)
next
  assume "reachable e s"
  then show "length (flushesPending s) \<le> 1"
    by (intro timersOk_one_flush reachable_timersOk)
next
  assume a: "events \<noteq> [] \<and> sorted (map fst events) \<and> list_all (\<lambda>ev. clock s \<le> fst ev) events
        \<and> withinWindow (map fst events) \<and> withinWindow (map (completionOf e) events)
        \<and> list_all (\<lambda>ev. extractable e (snd ev)) events
        \<and> pending s = [] \<and> timersOk s \<and> onSaveNeeded s
        \<and> latest (map (completionOf e) events) + 500 \<le> T"
  define A where "A = Min (set (map (completionOf e) events))"
  define C where "C = latest (map (completionOf e) events)"
  define s1 where "s1 = deliver e (modifyEvents events) s"
  have start: "bursting e A C events s"
    unfolding A_def C_def using a by (intro burst_start) simp_all
  have delivered: "bursting e A C [] s1" "saveRequests s1 = saveRequests s"
    and queued: "\<And>p. p \<in> snd ` set events \<Longrightarrow> covered e p s1"
    using bursting_deliver [OF start, of _] a unfolding s1_def by blast+
  have late: "C + 500 \<le> T" using a by (simp add: C_def)
  have ran: "saveRequests (runUntil e T s1) = saveRequests s1 @ [C + 500]"
    "pending (runUntil e T s1) = []" "\<not> isDirty (runUntil e T s1)"
    and kept: "\<And>p. covered e p s1 \<Longrightarrow> covered e p (runUntil e T s1)"
    using burst_runs_out [OF delivered(1) late] by blast+
  have stored: "\<exists>file p. vault_getAbstractFileByPath e (snd ev) = Some (File file)
        \<and> getMetadata (runUntil e T s1) (snd ev) = Some (extractionOutcome e file p)"
    if "ev \<in> set events" for ev
  proof -
    have "covered e (snd ev) (runUntil e T s1)" using that queued kept by auto
    then show ?thesis using ran(2) by (simp add: covered_def)
  qed
  show "saveRequests (runUntil e T (deliver e (modifyEvents events) s))
          = saveRequests s @ [latest (map (completionOf e) events) + 500]"
    using ran(1) delivered(2) by (simp add: s1_def C_def)
  show "pending (runUntil e T (deliver e (modifyEvents events) s)) = []"
    using ran(2) by (simp add: s1_def)
  show "\<not> needsSave (runUntil e T (deliver e (modifyEvents events) s))"
    using ran(3) by (simp add: s1_def needsSave_def)
  show "\<forall>ev \<in> set events. \<exists>file p.
              vault_getAbstractFileByPath e (snd ev) = Some (File file)
              \<and> getMetadata (runUntil e T (deliver e (modifyEvents events) s)) (snd ev)
                  = Some (extractionOutcome e file p)"
    using stored by (simp add: s1_def)
qed


lemmas burst_defs =
  modifyEvents_def completionOf_def readable_def fileReadable_def extractable_def latest_def
  withinWindow_def burstExample_def slowEnv_def

theorem debounced_flush_witness:
  "timersOk freshState
   \<and> flushesPending (scheduleSave freshState) = [\<lparr>task_id = 1, due = 500, run = SaveCallback\<rparr>]
   \<and> length (flushesPending (handleFileChange vaultEnv ''Music/song.mp3'' Delete freshState)) \<le> 1
   \<and> sorted (map fst burstExample)
   \<and> withinWindow (map fst burstExample)
   \<and> withinWindow (map (completionOf vaultEnv) burstExample)
   \<and> latest (map (completionOf vaultEnv) burstExample) = 1700
   \<and> saveRequests (runUntil vaultEnv 3000 (deliver vaultEnv (modifyEvents burstExample) freshState))
       = [2200]
   \<and> pending (runUntil vaultEnv 3000 (deliver vaultEnv (modifyEvents burstExample) freshState)) = []"
proof -
  have ok: "timersOk freshState" "pending freshState = []" "onSaveNeeded freshState"
    "nextId freshState = 1" "clock freshState = 0" "saveRequests freshState = []"
    by (simp_all add: timersOk_def freshState_def)
  have reach: "reachable vaultEnv (handleFileChange vaultEnv ''Music/song.mp3'' Delete freshState)"
    by (intro reachable.change reachable.start) (simp_all add: freshState_def)
  have shape: "burstExample \<noteq> []" "sorted (map fst burstExample)"
    "list_all (\<lambda>ev. clock freshState \<le> fst ev) burstExample"
    "withinWindow (map fst burstExample)"
    by (simp_all add: burst_defs freshState_def)
  have timing: "withinWindow (map (completionOf vaultEnv) burstExample)"
    "latest (map (completionOf vaultEnv) burstExample) = 1700"
    by (simp_all add: burst_defs vaultEnv_def)
  have files: "list_all (\<lambda>ev. extractable vaultEnv (snd ev)) burstExample"
    by (simp add: burst_defs model_defs example_defs lastSegment_def)
  note one = debounced_flush [of freshState vaultEnv burstExample 3000]
  note two = debounced_flush [of "handleFileChange vaultEnv ''Music/song.mp3'' Delete freshState"
      vaultEnv burstExample 3000]
  have a: "flushesPending (scheduleSave freshState) = [\<lparr>task_id = 1, due = 500, run = SaveCallback\<rparr>]"
    using one [THEN conjunct1] ok by simp
  have b: "length (flushesPending (handleFileChange vaultEnv ''Music/song.mp3'' Delete freshState)) \<le> 1"
    using two [THEN conjunct2, THEN conjunct1] reach by blast
  have c: "saveRequests (runUntil vaultEnv 3000 (deliver vaultEnv (modifyEvents burstExample) freshState))
       = [2200]
     \<and> pending (runUntil vaultEnv 3000 (deliver vaultEnv (modifyEvents burstExample) freshState)) = []"
    using one [THEN conjunct2, THEN conjunct2] ok shape timing files by simp
  show ?thesis
    using ok(1) a b c shape(2,4) timing by (simp only: simp_thms)
qed

text \<open>
  The claim as stated fails in both directions. Two modify events 100 ms apart, one for a
  note and one for an audio file that is gone when its settle delay has passed, lead to no
  notification at all. Two modify events 100 ms apart for two audio files, the second of
  which takes 600 ms to extract, lead to two notifications.
\<close>

theorem debounced_flush_counterexample:
  "saveRequests (runUntil vaultEnv 5000
      (deliver vaultEnv (modifyEvents [(0, ''Notes/todo.md''), (100, ''Music/gone.mp3'')]) freshState)) = []
   \<and> saveRequests (runUntil slowEnv 5000
      (deliver slowEnv (modifyEvents [(0, ''Music/song.mp3''), (100, ''Music/tune.mp3'')]) freshState))
       = [1000, 1700]"
  by (simp add: burst_defs model_defs example_defs loop_defs)

subsection \<open>Change events for files that are not audio files\<close>

text \<open>
  Claim C10. For every path whose file name (the part after the last slash) is not
  accepted by the supported-audio filter, \<open>handleFileChange\<close> returns the state it was
  given, for every kind of event: the cache, the dirty flag and the pending timers are
  all unchanged.
\<close>

theorem handleFileChange_unsupported_noop:
  "\<not> isSupportedAudioFile e (lastSegment filePath) \<Longrightarrow> handleFileChange e filePath type s = s"
  by (simp add: handleFileChange_def)

theorem handleFileChange_unsupported_noop_witness:
  "\<not> isSupportedAudioFile vaultEnv (lastSegment ''Notes/todo.md'')
   \<and> handleFileChange vaultEnv ''Notes/todo.md'' Modify freshState = freshState"
  using handleFileChange_unsupported_noop [of vaultEnv "''Notes/todo.md''" Modify freshState]
  by (simp add: vaultEnv_def isMp3_def lastSegment_def toLowerCase_def toLowerChar_def)

subsection \<open>The copy returned by getAllMetadata\<close>

lemma mutate_elsewhere:
  "target mu \<noteq> r \<Longrightarrow> objects (mutate mu h) r = objects h r"
  by (cases mu) (auto split: option.splits heap_object.splits)

lemma mutate_nextRef: "nextRef (mutate mu h) = nextRef h"
  by (cases mu) (auto split: option.splits heap_object.splits)

lemma mutations_elsewhere:
  "\<forall>mu \<in> set mus. target mu \<noteq> r \<Longrightarrow> objects (fold mutate mus h) r = objects h r"
  by (induction mus arbitrary: h) (simp_all add: mutate_elsewhere)

lemma contents_cong:
  "objects h1 c = objects h2 c \<Longrightarrow>
   \<forall>(k, r) \<in> set (entriesOf h1 c). objects h1 r = objects h2 r \<Longrightarrow>
   contents h1 c = contents h2 c"
  by (auto simp: contents_def entriesOf_def)

text \<open>
  Claim C9, as amended. \<open>getAllMetadata\<close> returns a new \<open>Map\<close> object with the entries of
  the cache. Whatever a caller then sets, deletes or clears in the returned \<open>Map\<close>, the
  cache keeps its entries and their records. The records themselves are not copied: the
  returned \<open>Map\<close> holds the same record references as the cache.
\<close>

theorem getAllMetadata_copies_structure:
  assumes "allocated h cacheRef"
    and "getAllMetadataRef cacheRef h = (m, h')"
    and "\<forall>mu \<in> set mus. target mu = m"
  shows "m \<noteq> cacheRef
       \<and> contents h' m = contents h cacheRef
       \<and> entriesOf (fold mutate mus h') cacheRef = entriesOf h cacheRef
       \<and> contents (fold mutate mus h') cacheRef = contents h cacheRef"
proof -
  have m: "m = nextRef h"
    and h': "h' = h\<lparr>objects := (objects h)(nextRef h \<mapsto> MapObject (entriesOf h cacheRef)),
                     nextRef := Suc (nextRef h)\<rparr>"
    using assms(2) by (auto simp: getAllMetadataRef_def newMap_def)
  have below: "cacheRef < m" and refs: "\<forall>(k, r) \<in> set (entriesOf h cacheRef). r < m"
    using assms(1) m by (auto simp: allocated_def list_all_iff)
  have kept: "objects (fold mutate mus h') r = objects h r" if "r < m" for r
  proof -
    have "\<forall>mu \<in> set mus. target mu \<noteq> r" using assms(3) that by auto
    then have "objects (fold mutate mus h') r = objects h' r" by (rule mutations_elsewhere)
    also have "\<dots> = objects h r" using that m h' by simp
    finally show ?thesis .
  qed
  have entries: "entriesOf (fold mutate mus h') cacheRef = entriesOf h cacheRef"
    using kept [OF below] by (simp add: entriesOf_def)
  have "contents (fold mutate mus h') cacheRef = contents h cacheRef"
  proof (rule contents_cong)
    show "objects (fold mutate mus h') cacheRef = objects h cacheRef" by (rule kept [OF below])
    show "\<forall>(k, r) \<in> set (entriesOf (fold mutate mus h') cacheRef).
            objects (fold mutate mus h') r = objects h r"
      using refs kept entries by auto
  qed
  moreover have "contents h' m = contents h cacheRef"
  proof -
    have "entriesOf h' m = entriesOf h cacheRef" using m h' by (simp add: entriesOf_def)
    moreover have "\<forall>(k, r) \<in> set (entriesOf h cacheRef). objects h' r = objects h r"
      using refs m h' by auto
    ultimately show ?thesis by (auto simp: contents_def)
  qed
  ultimately show ?thesis using below entries by simp
qed


theorem getAllMetadata_copies_structure_witness:
  "allocated exampleHeap 0
   \<and> fst (getAllMetadataRef 0 exampleHeap) = 2
   \<and> contents (snd (getAllMetadataRef 0 exampleHeap)) 2 = [(''Music/song.mp3'', Some songRecord)]
   \<and> contents (fold mutate [MapDelete 2 ''Music/song.mp3'', MapSet 2 ''Music/tune.mp3'' 1, MapClear 2]
                 (snd (getAllMetadataRef 0 exampleHeap))) 0
       = [(''Music/song.mp3'', Some songRecord)]"
proof -
  have a: "allocated exampleHeap 0"
    by (simp add: allocated_def exampleHeap_def entriesOf_def)
  have g: "getAllMetadataRef 0 exampleHeap = (2, snd (getAllMetadataRef 0 exampleHeap))"
    by (simp add: getAllMetadataRef_def newMap_def exampleHeap_def)
  have t: "\<forall>mu \<in> set [MapDelete 2 ''Music/song.mp3'', MapSet 2 ''Music/tune.mp3'' 1, MapClear 2].
             target mu = 2"
    by simp
  have c: "contents exampleHeap 0 = [(''Music/song.mp3'', Some songRecord)]"
    by (simp add: contents_def entriesOf_def exampleHeap_def)
  have f: "fst (getAllMetadataRef 0 exampleHeap) = 2"
    by (simp add: getAllMetadataRef_def newMap_def exampleHeap_def)
  note inst = getAllMetadata_copies_structure [OF a g t]
  have "contents (snd (getAllMetadataRef 0 exampleHeap)) 2 = [(''Music/song.mp3'', Some songRecord)]"
    using inst c by (simp only:)
  moreover have "contents (fold mutate [MapDelete 2 ''Music/song.mp3'', MapSet 2 ''Music/tune.mp3'' 1,
                                       MapClear 2]
                 (snd (getAllMetadataRef 0 exampleHeap))) 0
       = [(''Music/song.mp3'', Some songRecord)]"
    using inst c by (simp only:)
  ultimately show ?thesis using a f by (simp only: simp_thms)
qed

text \<open>
  The claim as stated fails for a mutation of a record: assigning to the title of the
  record found in the returned \<open>Map\<close> changes the record the cache holds.
\<close>

theorem getAllMetadata_copies_structure_counterexample:
  "fst (getAllMetadataRef 0 exampleHeap) = 2
   \<and> entriesOf (snd (getAllMetadataRef 0 exampleHeap)) 2 = [(''Music/song.mp3'', 1)]
   \<and> contents exampleHeap 0 = [(''Music/song.mp3'', Some songRecord)]
   \<and> contents (mutate (RecordAssign 1 (songRecord\<lparr>title := ''Changed''\<rparr>))
                 (snd (getAllMetadataRef 0 exampleHeap))) 0
       = [(''Music/song.mp3'', Some (songRecord\<lparr>title := ''Changed''\<rparr>))]
   \<and> songRecord\<lparr>title := ''Changed''\<rparr> \<noteq> songRecord"
  by (simp add: getAllMetadataRef_def newMap_def exampleHeap_def entriesOf_def contents_def
        songRecord_def)

end
